theory Spec2Isabelle
  imports Main "HOL-Library.Finite_Map" "HOL-Library.List_Lexorder"
begin

section \<open>Python strings\<close>

text \<open>
  A Python \<open>str\<close> is a sequence of Unicode code points, so it is modelled as a list of
  natural numbers. Python compares strings code point by code point, which is the
  lexicographic order on lists. \<open>bytes\<close> values are lists of numbers below 256.
  String literals of the source are written \<open>str_of ''...''\<close>.
\<close>

type_synonym str = "nat list"

type_synonym bytes = "nat list"

definition str_of :: "string \<Rightarrow> str" where
  "str_of cs = map of_char cs"

abbreviation LF :: nat where "LF \<equiv> 10"
abbreviation CR :: nat where "CR \<equiv> 13"
abbreviation HASH :: nat where "HASH \<equiv> 35"
abbreviation SLASH :: nat where "SLASH \<equiv> 47"
abbreviation EQUALS :: nat where "EQUALS \<equiv> 61"

text \<open>
  A code point can be encoded (UTF-8, strict) when it is a Unicode scalar value: below
  0x110000 and not a surrogate. \<open>str.encode("utf-8")\<close> and writing to a text file
  raise \<open>UnicodeEncodeError\<close> on anything else (a lone surrogate reaches the program
  through a JSON escape such as \<open>"\ud800"\<close>).
\<close>

definition is_scalar :: "nat \<Rightarrow> bool" where
  "is_scalar c = (c < 0xD800 \<or> (0xDFFF < c \<and> c < 0x110000))"

definition encodable :: "str \<Rightarrow> bool" where
  "encodable s = list_all is_scalar s"

text \<open>
  \<open>str.isspace\<close> for one character: the code points that \<open>str.strip()\<close> removes.
\<close>

definition isspace :: "nat \<Rightarrow> bool" where
  "isspace c =
     ((9 \<le> c \<and> c \<le> 13) \<or> (28 \<le> c \<and> c \<le> 32) \<or> c = 0x85 \<or> c = 0xA0 \<or> c = 0x1680
      \<or> (0x2000 \<le> c \<and> c \<le> 0x200A) \<or> c = 0x2028 \<or> c = 0x2029 \<or> c = 0x202F
      \<or> c = 0x205F \<or> c = 0x3000)"

definition lstrip :: "str \<Rightarrow> str" where
  "lstrip s = dropWhile isspace s"

definition rstrip :: "str \<Rightarrow> str" where
  "rstrip s = rev (dropWhile isspace (rev s))"

definition strip :: "str \<Rightarrow> str" where
  "strip s = rstrip (lstrip s)"

text \<open>\<open>s.split(sep)\<close> for a one-character separator: never returns the empty list.\<close>

fun split_on :: "nat \<Rightarrow> str \<Rightarrow> str list" where
  "split_on sep [] = [[]]"
| "split_on sep (c # cs) =
     (if c = sep then [] # split_on sep cs
      else (case split_on sep cs of [] \<Rightarrow> [[c]] | l # ls \<Rightarrow> (c # l) # ls))"

text \<open>\<open>s.split(sep, 1)\<close> for a string that contains \<open>sep\<close>: the parts around its first occurrence.\<close>

definition split_first :: "nat \<Rightarrow> str \<Rightarrow> str \<times> str" where
  "split_first sep s = (takeWhile (\<lambda>c. c \<noteq> sep) s, drop 1 (dropWhile (\<lambda>c. c \<noteq> sep) s))"

definition startswith :: "str \<Rightarrow> str \<Rightarrow> bool" where
  "startswith s p = (take (length p) s = p)"

definition endswith :: "str \<Rightarrow> str \<Rightarrow> bool" where
  "endswith s p = (length p \<le> length s \<and> drop (length s - length p) s = p)"

text \<open>\<open>sep.join(xs)\<close>.\<close>

fun join :: "str \<Rightarrow> str list \<Rightarrow> str" where
  "join sep [] = []"
| "join sep [x] = x"
| "join sep (x # y # ys) = x @ sep @ join sep (y # ys)"

text \<open>
  \<open>str.lower()\<close>. Only its comparison with the ASCII literals \<open>"1"\<close>, \<open>"true"\<close> and
  \<open>"yes"\<close> is used. The ASCII capitals and the Kelvin sign (U+212A) are the only code
  points whose lower case is a single ASCII letter; every other code point is left as
  it is here, which gives the same answer to that comparison.
\<close>

definition lower_char :: "nat \<Rightarrow> nat" where
  "lower_char c = (if 65 \<le> c \<and> c \<le> 90 then c + 32 else if c = 0x212A then 107 else c)"

definition lower :: "str \<Rightarrow> str" where
  "lower s = map lower_char s"

section \<open>Library codecs: UTF-8 and base64\<close>

text \<open>\<open>value.encode("utf-8")\<close>: \<open>None\<close> stands for \<open>UnicodeEncodeError\<close>.\<close>

definition utf8_encode_char :: "nat \<Rightarrow> bytes" where
  "utf8_encode_char c =
     (if c < 0x80 then [c]
      else if c < 0x800 then [0xC0 + c div 64, 0x80 + c mod 64]
      else if c < 0x10000 then [0xE0 + c div 4096, 0x80 + (c div 64) mod 64, 0x80 + c mod 64]
      else [0xF0 + c div 262144, 0x80 + (c div 4096) mod 64, 0x80 + (c div 64) mod 64,
            0x80 + c mod 64])"

definition utf8_encode :: "str \<Rightarrow> bytes option" where
  "utf8_encode s = (if encodable s then Some (concat (map utf8_encode_char s)) else None)"

definition is_cont :: "nat \<Rightarrow> bool" where
  "is_cont b = (0x80 \<le> b \<and> b < 0xC0)"

text \<open>
  \<open>bytes.decode("utf-8")\<close>, strict: \<open>None\<close> stands for \<open>UnicodeDecodeError\<close>
  (truncated or overlong sequences, stray continuation bytes, surrogates, values above
  U+10FFFF).
\<close>

fun utf8_decode :: "bytes \<Rightarrow> str option" where
  "utf8_decode [] = Some []"
| "utf8_decode (b0 # bs) =
     (if b0 < 0x80 then map_option ((#) b0) (utf8_decode bs)
      else if 0xC2 \<le> b0 \<and> b0 < 0xE0 then
        (case bs of
           b1 # r \<Rightarrow>
             if is_cont b1
             then map_option ((#) ((b0 - 0xC0) * 64 + (b1 - 0x80))) (utf8_decode r)
             else None
         | _ \<Rightarrow> None)
      else if 0xE0 \<le> b0 \<and> b0 < 0xF0 then
        (case bs of
           b1 # b2 # r \<Rightarrow>
             (let c = (b0 - 0xE0) * 4096 + (b1 - 0x80) * 64 + (b2 - 0x80)
              in if is_cont b1 \<and> is_cont b2 \<and> 0x800 \<le> c \<and> is_scalar c
                 then map_option ((#) c) (utf8_decode r) else None)
         | _ \<Rightarrow> None)
      else if 0xF0 \<le> b0 \<and> b0 < 0xF5 then
        (case bs of
           b1 # b2 # b3 # r \<Rightarrow>
             (let c = (b0 - 0xF0) * 262144 + (b1 - 0x80) * 4096 + (b2 - 0x80) * 64 + (b3 - 0x80)
              in if is_cont b1 \<and> is_cont b2 \<and> is_cont b3 \<and> 0x10000 \<le> c \<and> c < 0x110000
                 then map_option ((#) c) (utf8_decode r) else None)
         | _ \<Rightarrow> None)
      else None)"

text \<open>The base64 alphabet: the character of a six-bit value, and the value of a character.\<close>

definition b64_char :: "nat \<Rightarrow> nat" where
  "b64_char i =
     (if i < 26 then 65 + i else if i < 52 then 97 + (i - 26)
      else if i < 62 then 48 + (i - 52) else if i = 62 then 43 else 47)"

definition b64_value :: "nat \<Rightarrow> nat option" where
  "b64_value c =
     (if 65 \<le> c \<and> c \<le> 90 then Some (c - 65)
      else if 97 \<le> c \<and> c \<le> 122 then Some (c - 97 + 26)
      else if 48 \<le> c \<and> c \<le> 57 then Some (c - 48 + 52)
      else if c = 43 then Some 62
      else if c = 47 then Some 63
      else None)"

text \<open>\<open>base64.b64encode(bs).decode("ascii")\<close>: three bytes become four characters, padded with \<open>=\<close>.\<close>

fun b64encode :: "bytes \<Rightarrow> str" where
  "b64encode [] = []"
| "b64encode [a] = [b64_char (a div 4), b64_char ((a mod 4) * 16), EQUALS, EQUALS]"
| "b64encode [a, b] =
     [b64_char (a div 4), b64_char ((a mod 4) * 16 + b div 16), b64_char ((b mod 16) * 4), EQUALS]"
| "b64encode (a # b # c # bs) =
     [b64_char (a div 4), b64_char ((a mod 4) * 16 + b div 16),
      b64_char ((b mod 16) * 4 + c div 64), b64_char (c mod 64)] @ b64encode bs"

text \<open>
  \<open>binascii.a2b_base64\<close> in its default, non-strict mode, as \<open>base64.b64decode\<close> calls it
  (CPython 3.11 and 3.12). The arguments are the C loop's variables: \<open>quad_pos\<close>,
  \<open>leftchar\<close>, \<open>pads\<close> and the output written so far. Characters outside the alphabet are
  skipped; a \<open>=\<close> that completes the padding of a group ends the decoding and whatever
  follows is ignored; input that ends inside a group raises \<open>binascii.Error\<close> (\<open>None\<close>).
  The shifts and ORs of the C code combine disjoint bit fields, written here with
  multiplication and addition.
\<close>

fun a2b_base64 :: "nat \<Rightarrow> nat \<Rightarrow> nat \<Rightarrow> bytes \<Rightarrow> str \<Rightarrow> bytes option" where
  "a2b_base64 quad_pos leftchar pads out [] = (if quad_pos \<noteq> 0 then None else Some out)"
| "a2b_base64 quad_pos leftchar pads out (c # cs) =
     (if c = EQUALS then
        (if 2 \<le> quad_pos \<and> 4 \<le> quad_pos + (pads + 1) then Some out
         else a2b_base64 quad_pos leftchar (if 2 \<le> quad_pos then pads + 1 else pads) out cs)
      else
        (case b64_value c of
           None \<Rightarrow> a2b_base64 quad_pos leftchar pads out cs
         | Some v \<Rightarrow>
             if quad_pos = 0 then a2b_base64 1 v 0 out cs
             else if quad_pos = 1 then
               a2b_base64 2 (v mod 16) 0 (out @ [leftchar * 4 + v div 16]) cs
             else if quad_pos = 2 then
               a2b_base64 3 (v mod 4) 0 (out @ [leftchar * 16 + v div 4]) cs
             else a2b_base64 0 0 0 (out @ [leftchar * 64 + v]) cs))"

text \<open>
  \<open>base64.b64decode(s)\<close> for a \<open>str\<close> argument: a non-ASCII character raises
  \<open>ValueError\<close> before any decoding.
\<close>

definition b64decode :: "str \<Rightarrow> bytes option" where
  "b64decode s = (if list_all (\<lambda>c. c < 128) s then a2b_base64 0 0 0 [] s else None)"

section \<open>Key codec\<close>

text \<open>
  A Python \<open>dict\<close> from strings to strings is a finite map. Two dicts are equal in Python
  when they hold the same bindings, which is equality of finite maps.
\<close>

type_synonym dict = "(str, str) fmap"

text \<open>
  The line construction of \<open>save_profile_keys\<close>. \<open>sorted(keys.items())\<close> orders the
  pairs by key, the keys of a dict being distinct. \<open>None\<close>: a value could not be encoded.
\<close>

definition encode_line :: "str \<times> str \<Rightarrow> str option" where
  "encode_line kv =
     (case utf8_encode (snd kv) of
        None \<Rightarrow> None
      | Some bs \<Rightarrow> Some (fst kv @ [EQUALS] @ b64encode bs))"

fun encode_lines :: "(str \<times> str) list \<Rightarrow> str list option" where
  "encode_lines [] = Some []"
| "encode_lines (kv # kvs) =
     (case encode_line kv of
        None \<Rightarrow> None
      | Some l \<Rightarrow> (case encode_lines kvs of None \<Rightarrow> None | Some ls \<Rightarrow> Some (l # ls)))"

definition encode_contents :: "dict \<Rightarrow> str option" where
  "encode_contents keys =
     (case encode_lines (sorted_list_of_fmap keys) of
        None \<Rightarrow> None
      | Some lines \<Rightarrow> Some (if lines \<noteq> [] then join [LF] lines @ [LF] else []))"

text \<open>
  The line parser of \<open>load_profile_keys\<close>: \<open>decode_line\<close> is the body of the loop, a line
  that fails to decode leaves the dict as it is (the exception is logged).
\<close>

definition decode_value :: "str \<Rightarrow> str option" where
  "decode_value encoded_value =
     (case b64decode encoded_value of None \<Rightarrow> None | Some bs \<Rightarrow> utf8_decode bs)"

definition decode_line :: "str \<Rightarrow> dict \<Rightarrow> dict" where
  "decode_line raw keys =
     (let line = strip raw in
      if line = [] \<or> startswith line [HASH] then keys
      else if EQUALS \<in> set line then
        (let (key, encoded_value) = split_first EQUALS line in
         case decode_value encoded_value of
           Some v \<Rightarrow> fmupd key v keys
         | None \<Rightarrow> keys)
      else keys)"

definition decode_contents :: "str \<Rightarrow> dict" where
  "decode_contents data = fold decode_line (split_on LF (strip data)) fmempty"
section \<open>Paths and the file system\<close>

text \<open>\<open>os.path.join\<close> (posixpath): a component that starts with \<open>/\<close> discards what came before it.\<close>

definition os_path_join :: "str \<Rightarrow> str \<Rightarrow> str" where
  "os_path_join a b =
     (if startswith b [SLASH] then b
      else if a = [] \<or> endswith a [SLASH] then a @ b
      else a @ [SLASH] @ b)"

text \<open>
  The state of the machine. A file or directory is identified by its location, the list
  of names that leads to it from the root directory, so that two path strings that the
  operating system resolves to one file are one entry. \<open>files\<close> holds the regular files
  with their contents (of a text file its characters, of an encrypted file its bytes),
  \<open>dirs\<close> the directories other than the root, \<open>cwd\<close> the working directory against
  which relative paths are resolved, and \<open>calls\<close> the \<open>gpg\<close> subprocesses started so
  far. Symbolic links, hard links, case-insensitive file systems, access rights and
  limits on name lengths are not part of the model. Temporary files
  (\<open>tempfile.NamedTemporaryFile\<close>) get fresh names outside the two maps and are
  unlinked before the function that made them returns.
\<close>

type_synonym location = "str list"

datatype proc = GpgVersion | GpgDecrypt bool str | GpgEncrypt bool str

record world =
  files :: "(location, nat list) fmap"
  dirs :: "location fset"
  cwd :: location
  calls :: "proc list"

text \<open>
  A path string the operating system accepts: no NUL character (\<open>ValueError\<close>), and
  encodable in the file system encoding (UTF-8 with \<open>surrogateescape\<close>, which also takes
  the surrogates U+DC80 to U+DCFF).
\<close>

definition path_ok :: "str \<Rightarrow> bool" where
  "path_ok p = list_all (\<lambda>c. c \<noteq> 0 \<and> (is_scalar c \<or> (0xDC80 \<le> c \<and> c \<le> 0xDCFF))) p"

text \<open>
  Path resolution. The names of a path are what lies between its slashes. Resolution
  starts at the root for an absolute path and at the working directory otherwise, and
  takes one name at a time: the place it stands on must be a directory, \<open>.\<close> stays
  there, \<open>..\<close> goes to the parent, any other name goes to the entry of that name,
  whether or not it exists. \<open>resolve\<close> gives the location a path leads to, and \<open>None\<close>
  when the path is empty or rejected or leads through something that is no directory;
  a path that ends with \<open>/\<close> must lead to a directory.
\<close>

definition components :: "str \<Rightarrow> str list" where
  "components p = filter (\<lambda>c. c \<noteq> []) (split_on SLASH p)"

definition is_dir :: "world \<Rightarrow> location \<Rightarrow> bool" where
  "is_dir w l = (l = [] \<or> l |\<in>| dirs w)"

definition step :: "location \<Rightarrow> str \<Rightarrow> location" where
  "step cur c =
     (if c = str_of ''.'' then cur else if c = str_of ''..'' then butlast cur else cur @ [c])"

fun walk :: "world \<Rightarrow> location \<Rightarrow> str list \<Rightarrow> location option" where
  "walk w cur [] = Some cur"
| "walk w cur (c # cs) = (if is_dir w cur then walk w (step cur c) cs else None)"

definition start_of :: "world \<Rightarrow> str \<Rightarrow> location" where
  "start_of w p = (if startswith p [SLASH] then [] else cwd w)"

definition resolve :: "world \<Rightarrow> str \<Rightarrow> location option" where
  "resolve w p =
     (if p = [] \<or> \<not> path_ok p then None
      else (case walk w (start_of w p) (components p) of
              None \<Rightarrow> None
            | Some l \<Rightarrow> if endswith p [SLASH] \<and> \<not> is_dir w l then None else Some l))"

text \<open>\<open>os.path.exists\<close>: false, not an exception, for a path that does not resolve.\<close>

definition os_path_exists :: "world \<Rightarrow> str \<Rightarrow> bool" where
  "os_path_exists w p =
     (case resolve w p of None \<Rightarrow> False | Some l \<Rightarrow> is_dir w l \<or> l |\<in>| fmdom (files w))"

text \<open>The contents of the regular file that a path names, if it names one.\<close>

definition file_at :: "world \<Rightarrow> str \<Rightarrow> nat list option" where
  "file_at w p = (case resolve w p of None \<Rightarrow> None | Some l \<Rightarrow> fmlookup (files w) l)"

text \<open>
  \<open>open(path, "w")\<close>: the location of the file it creates or truncates. It raises
  (\<open>None\<close>) when the path does not resolve, which includes a missing parent directory,
  and when the path names a directory.
\<close>

definition open_w :: "world \<Rightarrow> str \<Rightarrow> location option" where
  "open_w w p =
     (case resolve w p of None \<Rightarrow> None | Some l \<Rightarrow> if is_dir w l then None else Some l)"

text \<open>
  \<open>os.makedirs(path, exist_ok=True)\<close>: every directory on the way is created if it is
  missing; a regular file in the way raises (\<open>None\<close>).
\<close>

fun mkdir_walk :: "world \<Rightarrow> location \<Rightarrow> str list \<Rightarrow> world option" where
  "mkdir_walk w cur [] = Some w"
| "mkdir_walk w cur (c # cs) =
     (let nxt = step cur c in
      if nxt |\<in>| fmdom (files w) then None
      else mkdir_walk (if nxt = [] then w else w\<lparr>dirs := finsert nxt (dirs w)\<rparr>) nxt cs)"

definition makedirs :: "world \<Rightarrow> str \<Rightarrow> world option" where
  "makedirs w p =
     (if p = [] \<or> \<not> path_ok p then None else mkdir_walk w (start_of w p) (components p))"

text \<open>
  \<open>os.listdir(d)\<close>: the names of the entries of the directory; it raises (\<open>None\<close>) when
  \<open>d\<close> is no directory. Python returns the names in arbitrary order; \<open>list_profiles\<close>
  sorts what it keeps, so the order chosen here does not show.
\<close>

definition listdir :: "world \<Rightarrow> str \<Rightarrow> str list option" where
  "listdir w d =
     (case resolve w d of
        None \<Rightarrow> None
      | Some l \<Rightarrow>
          if is_dir w l
          then Some (sorted_list_of_fset
                 (last |`| ffilter (\<lambda>e. e \<noteq> [] \<and> butlast e = l) (fmdom (files w) |\<union>| dirs w)))
          else None)"

text \<open>
  A location lies inside a directory when the location of the directory is a proper
  prefix of it.
\<close>

definition inside :: "location \<Rightarrow> location \<Rightarrow> bool" where
  "inside d l = (length d < length l \<and> take (length d) l = d)"

section \<open>Configuration\<close>

text \<open>
  The process environment that \<open>AKConfig.__init__\<close> reads: the environment variables, and
  the home directory of the password database, which \<open>os.path.expanduser\<close> uses when
  \<open>HOME\<close> is not set (\<open>None\<close>: the user has no entry).
\<close>

record os_env =
  environ :: "(str, str) fmap"
  pw_dir :: "str option"

definition getenv :: "os_env \<Rightarrow> string \<Rightarrow> str option" where
  "getenv env name = fmlookup (environ env) (str_of name)"

definition getenv_default :: "os_env \<Rightarrow> string \<Rightarrow> str \<Rightarrow> str" where
  "getenv_default env name d = (case getenv env name of None \<Rightarrow> d | Some v \<Rightarrow> v)"

text \<open>\<open>os.path.expanduser("~")\<close>.\<close>

definition expanduser_home :: "os_env \<Rightarrow> str" where
  "expanduser_home env =
     (case (case getenv env ''HOME'' of Some h \<Rightarrow> Some h | None \<Rightarrow> pw_dir env) of
        None \<Rightarrow> str_of ''~''
      | Some userhome \<Rightarrow>
          (let h = rev (dropWhile (\<lambda>c. c = SLASH) (rev userhome))
           in if h = [] then [SLASH] else h))"

text \<open>
  The external \<open>gpg\<close> program, as far as the code observes it. \<open>version_probe\<close> is the
  outcome of \<open>subprocess.run(["gpg", "--version"], ...)\<close>. \<open>gpg_decrypt p c\<close> is the
  standard output of a decryption of file contents \<open>c\<close> that exits with status 0 (\<open>p\<close> is
  the preset passphrase, empty when there is none), and \<open>None\<close> for every other outcome:
  a non-zero status, a timeout, a missing program. \<open>gpg_encrypt p d\<close> likewise is the
  encrypted file that a successful run writes for the data \<open>d\<close>.
\<close>

datatype run_result = Returned int | TimeoutExpired | FileNotFoundError | OtherError

record gpg_tool =
  version_probe :: run_result
  gpg_decrypt :: "str \<Rightarrow> bytes \<Rightarrow> str option"
  gpg_encrypt :: "str \<Rightarrow> str \<Rightarrow> bytes option"

record akconfig =
  config_dir :: str
  profiles_dir :: str
  persist_dir :: str
  vault_path :: str
  gpg_available :: bool
  force_plain :: bool
  preset_passphrase :: str

definition get_config_dir :: "os_env \<Rightarrow> str" where
  "get_config_dir env =
     (case getenv env ''XDG_CONFIG_HOME'' of
        Some xdg_config \<Rightarrow>
          if xdg_config \<noteq> [] then os_path_join xdg_config (str_of ''ak'')
          else os_path_join (os_path_join (expanduser_home env) (str_of ''.config'')) (str_of ''ak'')
      | None \<Rightarrow>
          os_path_join (os_path_join (expanduser_home env) (str_of ''.config'')) (str_of ''ak''))"

text \<open>
  \<open>_check_gpg_available\<close>: the probe always runs; \<open>TimeoutExpired\<close> and
  \<open>FileNotFoundError\<close> are caught, any other exception leaves the function (\<open>None\<close>).
\<close>

definition check_gpg_available :: "gpg_tool \<Rightarrow> world \<Rightarrow> bool option \<times> world" where
  "check_gpg_available gpg w =
     (case version_probe gpg of
        Returned rc \<Rightarrow> Some (rc = 0)
      | TimeoutExpired \<Rightarrow> Some False
      | FileNotFoundError \<Rightarrow> Some False
      | OtherError \<Rightarrow> None,
      w\<lparr>calls := calls w @ [GpgVersion]\<rparr>)"

definition disable_gpg_truthy :: "os_env \<Rightarrow> bool" where
  "disable_gpg_truthy env =
     (lower (getenv_default env ''AK_DISABLE_GPG'' []) \<in> set [str_of ''1'', str_of ''true'', str_of ''yes''])"

text \<open>
  \<open>AKConfig.__init__\<close>, in the order of its statements: the fields, then the three
  \<open>os.makedirs\<close> calls. An exception that leaves the constructor is \<open>None\<close>.
\<close>

definition AKConfig_init :: "os_env \<Rightarrow> gpg_tool \<Rightarrow> world \<Rightarrow> (akconfig \<times> world) option" where
  "AKConfig_init env gpg w =
     (let cdir = get_config_dir env;
          pdir = os_path_join cdir (str_of ''profiles'');
          sdir = os_path_join cdir (str_of ''persist'');
          vault = os_path_join cdir (str_of ''keys.env.gpg'');
          (avail, w1) = check_gpg_available gpg w
      in case avail of
           None \<Rightarrow> None
         | Some a \<Rightarrow>
             (case makedirs w1 cdir of
                None \<Rightarrow> None
              | Some w2 \<Rightarrow>
                  (case makedirs w2 pdir of
                     None \<Rightarrow> None
                   | Some w3 \<Rightarrow>
                       (case makedirs w3 sdir of
                          None \<Rightarrow> None
                        | Some w4 \<Rightarrow>
                            Some (\<lparr>config_dir = cdir, profiles_dir = pdir, persist_dir = sdir,
                                   vault_path = vault, gpg_available = a,
                                   force_plain = disable_gpg_truthy env,
                                   preset_passphrase = getenv_default env ''AK_PASSPHRASE'' []\<rparr>,
                                  w4)))))"

definition profile_path :: "akconfig \<Rightarrow> str \<Rightarrow> str" where
  "profile_path cfg name = os_path_join (profiles_dir cfg) (name @ str_of ''.profile'')"

definition profile_keys_path :: "akconfig \<Rightarrow> str \<Rightarrow> str" where
  "profile_keys_path cfg name = os_path_join (profiles_dir cfg) (name @ str_of ''.keys.gpg'')"

definition profile_keys_plain_path :: "akconfig \<Rightarrow> str \<Rightarrow> str" where
  "profile_keys_plain_path cfg name = os_path_join (profiles_dir cfg) (name @ str_of ''.keys'')"
section \<open>Profile store\<close>

text \<open>
  \<open>list_profiles\<close>. \<open>os.listdir\<close> is not inside a \<open>try\<close>: when the profiles path exists
  and is no directory its exception leaves the function (\<open>None\<close>).
\<close>

definition list_profiles :: "akconfig \<Rightarrow> world \<Rightarrow> str list option" where
  "list_profiles cfg w =
     (if \<not> os_path_exists w (profiles_dir cfg) then Some []
      else (case listdir w (profiles_dir cfg) of
              None \<Rightarrow> None
            | Some filenames \<Rightarrow>
                Some (sort (map (\<lambda>filename. take (length filename - 8) filename)
                        (filter (\<lambda>filename. endswith filename (str_of ''.profile''))
                           filenames)))))"

text \<open>
  Reading a file opened with \<open>open(path, "r")\<close>: text mode translates \<open>\r\n\<close> and \<open>\r\<close>
  to \<open>\n\<close>. \<open>readlines\<close> cuts after every \<open>\n\<close> and keeps it.
\<close>

fun universal_newlines :: "str \<Rightarrow> str" where
  "universal_newlines [] = []"
| "universal_newlines [c] = [if c = CR then LF else c]"
| "universal_newlines (c # d # cs) =
     (if c = CR \<and> d = LF then LF # universal_newlines cs
      else if c = CR then LF # universal_newlines (d # cs)
      else c # universal_newlines (d # cs))"

definition readlines :: "str \<Rightarrow> str list" where
  "readlines text =
     (let parts = split_on LF text
      in map (\<lambda>l. l @ [LF]) (butlast parts) @ (if last parts = [] then [] else [last parts]))"

text \<open>
  \<open>read_profile\<close>. Opening a path that exists but is no regular file raises, which the
  function catches and answers with the empty list.
\<close>

definition read_profile :: "akconfig \<Rightarrow> str \<Rightarrow> world \<Rightarrow> str list" where
  "read_profile cfg name w =
     (let path = profile_path cfg name in
      if \<not> os_path_exists w path then []
      else (case file_at w path of
              None \<Rightarrow> []
            | Some content \<Rightarrow>
                filter (\<lambda>line. line \<noteq> []) (map strip (readlines (universal_newlines content)))))"

text \<open>
  \<open>write_profile\<close>. \<open>sorted(list(set(keys)))\<close> is \<open>sort (remdups keys)\<close>. When
  \<open>open(path, "w")\<close> raises, nothing is written and the function returns \<open>False\<close>.
  Otherwise the file is truncated; each \<open>f.write\<close> encodes its line first, so a key that
  cannot be encoded raises after the lines before it were written, and the function
  returns \<open>False\<close>.
\<close>

definition write_profile :: "akconfig \<Rightarrow> str \<Rightarrow> str list \<Rightarrow> world \<Rightarrow> bool \<times> world" where
  "write_profile cfg name keys w =
     (let path = profile_path cfg name;
          unique_keys = sort (remdups keys) in
      case open_w w path of
        None \<Rightarrow> (False, w)
      | Some l \<Rightarrow>
          (list_all encodable unique_keys,
           w\<lparr>files := fmupd l (concat (map (\<lambda>key. key @ [LF])
                                   (takeWhile encodable unique_keys))) (files w)\<rparr>))"

text \<open>
  \<open>decrypt_gpg_data\<close>. With a preset passphrase the passphrase is first written to a
  temporary file, which raises (caught: \<open>None\<close>) when it cannot be encoded.
  \<open>subprocess.run\<close> raises before it starts a process when an argument is rejected.
  \<open>gpg\<close> fails when the path names no regular file.
\<close>

definition run_gpg_decrypt :: "akconfig \<Rightarrow> gpg_tool \<Rightarrow> bool \<Rightarrow> str \<Rightarrow> world \<Rightarrow> str option \<times> world" where
  "run_gpg_decrypt cfg gpg batch file_path w =
     (if \<not> path_ok file_path then (None, w)
      else (case file_at w file_path of
              None \<Rightarrow> None
            | Some c \<Rightarrow> gpg_decrypt gpg (preset_passphrase cfg) c,
            w\<lparr>calls := calls w @ [GpgDecrypt batch file_path]\<rparr>))"

definition decrypt_gpg_data :: "akconfig \<Rightarrow> gpg_tool \<Rightarrow> str \<Rightarrow> world \<Rightarrow> str option \<times> world" where
  "decrypt_gpg_data cfg gpg file_path w =
     (if \<not> gpg_available cfg \<or> force_plain cfg then (None, w)
      else if preset_passphrase cfg \<noteq> [] then
        (if \<not> encodable (preset_passphrase cfg) then (None, w)
         else run_gpg_decrypt cfg gpg True file_path w)
      else run_gpg_decrypt cfg gpg False file_path w)"

text \<open>
  \<open>encrypt_gpg_data\<close>. The data goes to a temporary file first (an encoding error is
  caught: \<open>False\<close>). A run of \<open>gpg\<close> that succeeds has written the output file
  \<open>file_path\<close>, which it opens like any other file that is written; a run that fails is
  taken to leave the files as they were.
\<close>

definition run_gpg_encrypt :: "akconfig \<Rightarrow> gpg_tool \<Rightarrow> bool \<Rightarrow> str \<Rightarrow> str \<Rightarrow> world \<Rightarrow> bool \<times> world" where
  "run_gpg_encrypt cfg gpg batch data file_path w =
     (if \<not> path_ok file_path then (False, w)
      else (case open_w w file_path of
              None \<Rightarrow> (False, w\<lparr>calls := calls w @ [GpgEncrypt batch file_path]\<rparr>)
            | Some l \<Rightarrow>
                (case gpg_encrypt gpg (preset_passphrase cfg) data of
                   None \<Rightarrow> (False, w\<lparr>calls := calls w @ [GpgEncrypt batch file_path]\<rparr>)
                 | Some c \<Rightarrow>
                     (True, w\<lparr>files := fmupd l c (files w),
                              calls := calls w @ [GpgEncrypt batch file_path]\<rparr>))))"

definition encrypt_gpg_data :: "akconfig \<Rightarrow> gpg_tool \<Rightarrow> str \<Rightarrow> str \<Rightarrow> world \<Rightarrow> bool \<times> world" where
  "encrypt_gpg_data cfg gpg data file_path w =
     (if \<not> gpg_available cfg \<or> force_plain cfg then (False, w)
      else if \<not> encodable data then (False, w)
      else if preset_passphrase cfg \<noteq> [] then
        (if \<not> encodable (preset_passphrase cfg) then (False, w)
         else run_gpg_encrypt cfg gpg True data file_path w)
      else run_gpg_encrypt cfg gpg False data file_path w)"

text \<open>
  \<open>load_profile_keys\<close>. \<open>not data\<close> holds for \<open>None\<close> and for the empty string alike.
  When the plaintext path exists and cannot be read as a file, the exception is caught
  and the empty dict returned.
\<close>

definition not_data :: "str option \<Rightarrow> bool" where
  "not_data data = (case data of None \<Rightarrow> True | Some s \<Rightarrow> s = [])"

definition parse_data :: "str option \<Rightarrow> dict" where
  "parse_data data =
     (case data of
        None \<Rightarrow> fmempty
      | Some s \<Rightarrow> if s = [] then fmempty else decode_contents s)"

definition load_profile_keys :: "akconfig \<Rightarrow> gpg_tool \<Rightarrow> str \<Rightarrow> world \<Rightarrow> dict \<times> world" where
  "load_profile_keys cfg gpg name w =
     (let encrypted_path = profile_keys_path cfg name;
          plain_path = profile_keys_plain_path cfg name;
          (data, w1) = (if os_path_exists w encrypted_path
                        then decrypt_gpg_data cfg gpg encrypted_path w
                        else (None, w)) in
      if not_data data \<and> os_path_exists w1 plain_path then
        (case file_at w1 plain_path of
           None \<Rightarrow> (fmempty, w1)
         | Some content \<Rightarrow> (parse_data (Some (universal_newlines content)), w1))
      else (parse_data data, w1))"

text \<open>
  \<open>save_profile_keys\<close>. The plaintext file is opened, and so truncated, before the data
  is encoded for it.
\<close>

definition save_profile_keys :: "akconfig \<Rightarrow> gpg_tool \<Rightarrow> str \<Rightarrow> dict \<Rightarrow> world \<Rightarrow> bool \<times> world" where
  "save_profile_keys cfg gpg name keys w =
     (case encode_contents keys of
        None \<Rightarrow> (False, w)
      | Some data \<Rightarrow>
          (let encrypted_path = profile_keys_path cfg name;
               (encrypted, w1) = encrypt_gpg_data cfg gpg data encrypted_path w in
           if encrypted then (True, w1)
           else (let plain_path = profile_keys_plain_path cfg name in
                 case open_w w1 plain_path of
                   None \<Rightarrow> (False, w1)
                 | Some l \<Rightarrow>
                     if encodable data then (True, w1\<lparr>files := fmupd l data (files w1)\<rparr>)
                     else (False, w1\<lparr>files := fmupd l [] (files w1)\<rparr>))))"

text \<open>
  \<open>ensure_default_profile\<close>. The first component of the result tells whether the
  function returned; it is \<open>False\<close> when the exception of \<open>list_profiles\<close> left it, the
  state then being as it was.
\<close>

definition ensure_default_profile :: "akconfig \<Rightarrow> world \<Rightarrow> bool \<times> world" where
  "ensure_default_profile cfg w =
     (case list_profiles cfg w of
        None \<Rightarrow> (False, w)
      | Some profiles \<Rightarrow>
          if str_of ''default'' \<notin> set profiles
          then (True, snd (write_profile cfg (str_of ''default'') [] w))
          else (True, w))"
section \<open>Request handlers\<close>

text \<open>
  A response is the JSON payload and the HTTP status. \<open>ExceptionText\<close> is the payload
  \<open>{"error": str(e)}\<close> of a handler's \<open>except Exception\<close> branch. A request body is the
  JSON object sent (\<open>None\<close>: \<open>get_json()\<close> returned \<open>None\<close>), its members strings.
\<close>

datatype payload =
    Message string
  | Error string
  | ExceptionText
  | HealthInfo string str bool

type_synonym response = "payload \<times> nat"

type_synonym json_body = "(str, str) fmap option"

definition health_check :: "akconfig \<Rightarrow> response" where
  "health_check cfg = (HealthInfo ''healthy'' (config_dir cfg) (gpg_available cfg), 200)"

definition add_profile_key ::
    "akconfig \<Rightarrow> gpg_tool \<Rightarrow> str \<Rightarrow> json_body \<Rightarrow> world \<Rightarrow> response \<times> world" where
  "add_profile_key cfg gpg profile_name data w =
     (case data of
        None \<Rightarrow> ((Error ''Missing key name or value'', 400), w)
      | Some d \<Rightarrow>
          (case (fmlookup d (str_of ''name''), fmlookup d (str_of ''value'')) of
             (Some key_name, Some key_value) \<Rightarrow>
               (let (keys, w1) = load_profile_keys cfg gpg profile_name w;
                    (saved, w2) = save_profile_keys cfg gpg profile_name (fmupd key_name key_value keys) w1 in
                if saved then
                  (let profile_keys = read_profile cfg profile_name w2 in
                   if key_name \<notin> set profile_keys
                   then ((Message ''Key added successfully'', 200),
                         snd (write_profile cfg profile_name (profile_keys @ [key_name]) w2))
                   else ((Message ''Key added successfully'', 200), w2))
                else ((Error ''Failed to save key'', 500), w2))
           | _ \<Rightarrow> ((Error ''Missing key name or value'', 400), w)))"

definition update_profile_key ::
    "akconfig \<Rightarrow> gpg_tool \<Rightarrow> str \<Rightarrow> str \<Rightarrow> json_body \<Rightarrow> world \<Rightarrow> response \<times> world" where
  "update_profile_key cfg gpg profile_name key_name data w =
     (case data of
        None \<Rightarrow> ((Error ''Missing key value'', 400), w)
      | Some d \<Rightarrow>
          (case fmlookup d (str_of ''value'') of
             Some key_value \<Rightarrow>
               (let (keys, w1) = load_profile_keys cfg gpg profile_name w;
                    (saved, w2) = save_profile_keys cfg gpg profile_name (fmupd key_name key_value keys) w1 in
                if saved then ((Message ''Key updated successfully'', 200), w2)
                else ((Error ''Failed to update key'', 500), w2))
           | None \<Rightarrow> ((Error ''Missing key value'', 400), w)))"

definition delete_profile_key ::
    "akconfig \<Rightarrow> gpg_tool \<Rightarrow> str \<Rightarrow> str \<Rightarrow> world \<Rightarrow> response \<times> world" where
  "delete_profile_key cfg gpg profile_name key_name w =
     (let (keys, w1) = load_profile_keys cfg gpg profile_name w in
      if key_name |\<in>| fmdom keys then
        (let (saved, w2) = save_profile_keys cfg gpg profile_name (fmdrop key_name keys) w1 in
         if saved then
           (let profile_keys = read_profile cfg profile_name w2 in
            if key_name \<in> set profile_keys
            then ((Message ''Key deleted successfully'', 200),
                  snd (write_profile cfg profile_name (remove1 key_name profile_keys) w2))
            else ((Message ''Key deleted successfully'', 200), w2))
         else ((Error ''Failed to save changes'', 500), w2))
      else ((Error ''Key not found'', 404), w1))"

text \<open>\<open>create_profile\<close>: an exception of \<open>list_profiles\<close> is answered with status 500.\<close>

definition create_profile :: "akconfig \<Rightarrow> json_body \<Rightarrow> world \<Rightarrow> response \<times> world" where
  "create_profile cfg data w =
     (case data of
        None \<Rightarrow> ((Error ''Missing profile name'', 400), w)
      | Some d \<Rightarrow>
          (case fmlookup d (str_of ''name'') of
             None \<Rightarrow> ((Error ''Missing profile name'', 400), w)
           | Some profile_name \<Rightarrow>
               (case list_profiles cfg w of
                  None \<Rightarrow> ((ExceptionText, 500), w)
                | Some profiles \<Rightarrow>
                    if profile_name \<in> set profiles
                    then ((Error ''Profile already exists'', 409), w)
                    else (let (written, w1) = write_profile cfg profile_name [] w in
                          if written then ((Message ''Profile created successfully'', 200), w1)
                          else ((Error ''Failed to create profile'', 500), w1)))))"

text \<open>
  The loop of \<open>delete_profile\<close>: \<open>os.unlink\<close> of each path that exists. It raises on a
  directory, which ends the loop with the earlier files already removed (\<open>False\<close>).
\<close>

fun unlink_existing :: "str list \<Rightarrow> world \<Rightarrow> bool \<times> world" where
  "unlink_existing [] w = (True, w)"
| "unlink_existing (path # paths) w =
     (if os_path_exists w path then
        (case resolve w path of
           None \<Rightarrow> (False, w)
         | Some l \<Rightarrow>
             if l |\<in>| fmdom (files w) \<and> \<not> is_dir w l
             then unlink_existing paths (w\<lparr>files := fmdrop l (files w)\<rparr>)
             else (False, w))
      else unlink_existing paths w)"

definition delete_profile :: "akconfig \<Rightarrow> str \<Rightarrow> world \<Rightarrow> response \<times> world" where
  "delete_profile cfg profile_name w =
     (if profile_name = str_of ''default''
      then ((Error ''Cannot delete default profile'', 400), w)
      else (let (done, w1) =
                  unlink_existing [profile_path cfg profile_name,
                                   profile_keys_path cfg profile_name,
                                   profile_keys_plain_path cfg profile_name] w in
            if done then ((Message ''Profile deleted successfully'', 200), w1)
            else ((ExceptionText, 500), w1)))"

section \<open>Engine operations\<close>

text \<open>
  The operations of the profile store, by the names the specification gives them, and
  the state each leaves behind.
\<close>

datatype engine_op =
    ListProfiles
  | ReadNameList str
  | WriteNameList str "str list"
  | LoadKeys str
  | SaveKeys str dict
  | AddKey str json_body
  | UpdateKey str str json_body
  | DeleteKey str str
  | CreateProfile json_body
  | DeleteProfile str
  | EnsureDefaultProfile

fun run_op :: "akconfig \<Rightarrow> gpg_tool \<Rightarrow> engine_op \<Rightarrow> world \<Rightarrow> world" where
  "run_op cfg gpg ListProfiles w = w"
| "run_op cfg gpg (ReadNameList name) w = w"
| "run_op cfg gpg (WriteNameList name keys) w = snd (write_profile cfg name keys w)"
| "run_op cfg gpg (LoadKeys name) w = snd (load_profile_keys cfg gpg name w)"
| "run_op cfg gpg (SaveKeys name keys) w = snd (save_profile_keys cfg gpg name keys w)"
| "run_op cfg gpg (AddKey name data) w = snd (add_profile_key cfg gpg name data w)"
| "run_op cfg gpg (UpdateKey name key data) w = snd (update_profile_key cfg gpg name key data w)"
| "run_op cfg gpg (DeleteKey name key) w = snd (delete_profile_key cfg gpg name key w)"
| "run_op cfg gpg (CreateProfile data) w = snd (create_profile cfg data w)"
| "run_op cfg gpg (DeleteProfile name) w = snd (delete_profile cfg name w)"
| "run_op cfg gpg EnsureDefaultProfile w = snd (ensure_default_profile cfg w)"

definition run_ops :: "akconfig \<Rightarrow> gpg_tool \<Rightarrow> engine_op list \<Rightarrow> world \<Rightarrow> world" where
  "run_ops cfg gpg ops w = fold (run_op cfg gpg) ops w"
section \<open>Example configurations and states\<close>

text \<open>
  A machine on which \<open>gpg\<close> answers the version probe, with a stand-in cipher that
  puts one marker byte in front of the data. \<open>HOME\<close> is \<open>/h\<close>, the working directory
  is the root, and at first there is no file and no directory.
\<close>

definition toy_gpg :: gpg_tool where
  "toy_gpg =
     \<lparr>version_probe = Returned 0,
      gpg_decrypt = (\<lambda>p c. case c of [] \<Rightarrow> None | b # d \<Rightarrow> if b = 71 then Some d else None),
      gpg_encrypt = (\<lambda>p d. Some (71 # d))\<rparr>"

definition home_env :: os_env where
  "home_env = \<lparr>environ = fmupd (str_of ''HOME'') (str_of ''/h'') fmempty, pw_dir = None\<rparr>"

definition disabled_env :: os_env where
  "disabled_env =
     \<lparr>environ = fmupd (str_of ''AK_DISABLE_GPG'') (str_of ''1'')
                  (fmupd (str_of ''HOME'') (str_of ''/h'') fmempty),
      pw_dir = None\<rparr>"

definition empty_world :: world where
  "empty_world = \<lparr>files = fmempty, dirs = {||}, cwd = [], calls = []\<rparr>"

definition home_config :: akconfig where
  "home_config =
     \<lparr>config_dir = str_of ''/h/.config/ak'',
      profiles_dir = str_of ''/h/.config/ak/profiles'',
      persist_dir = str_of ''/h/.config/ak/persist'',
      vault_path = str_of ''/h/.config/ak/keys.env.gpg'',
      gpg_available = True, force_plain = False, preset_passphrase = []\<rparr>"

text \<open>The locations of \<open>/h/.config/ak\<close> and of the profiles directory in it.\<close>

definition ak_loc :: location where
  "ak_loc = [str_of ''h'', str_of ''.config'', str_of ''ak'']"

definition profiles_loc :: location where
  "profiles_loc = ak_loc @ [str_of ''profiles'']"

definition home_world :: world where
  "home_world =
     \<lparr>files = fmempty,
      dirs = {|[str_of ''h''], [str_of ''h'', str_of ''.config''], ak_loc, profiles_loc,
               ak_loc @ [str_of ''persist'']|},
      cwd = [],
      calls = [GpgVersion]\<rparr>"

text \<open>
  A profile \<open>p\<close> whose plaintext contents file holds the key \<open>K\<close> with the value \<open>v\<close>
  (\<open>dg==\<close> in base64); and the same state with, in addition, an encrypted contents file
  that the stand-in cipher decrypts to the empty text, as \<open>save_profile_keys\<close> writes it
  for the empty mapping.
\<close>

definition plain_world :: world where
  "plain_world =
     home_world\<lparr>files := fmupd (profiles_loc @ [str_of ''p.keys''])
                          (str_of ''K=dg=='' @ [LF]) fmempty\<rparr>"

definition stale_world :: world where
  "stale_world =
     home_world\<lparr>files := fmupd (profiles_loc @ [str_of ''p.keys.gpg'']) [71]
                          (fmupd (profiles_loc @ [str_of ''p.keys''])
                             (str_of ''K=dg=='' @ [LF]) fmempty)\<rparr>"

text \<open>
  A state in which the default profile has all three artifacts: a name list with the
  key \<open>K\<close>, and its contents both encrypted (by the stand-in cipher) and in plaintext.
\<close>

definition default_world :: world where
  "default_world =
     home_world\<lparr>files :=
       fmupd (profiles_loc @ [str_of ''default.profile'']) (str_of ''K'' @ [LF])
         (fmupd (profiles_loc @ [str_of ''default.keys.gpg'']) (71 # str_of ''K=dg=='' @ [LF])
            (fmupd (profiles_loc @ [str_of ''default.keys'']) (str_of ''K=dg=='' @ [LF])
               fmempty))\<rparr>"

section \<open>Basic facts about strings\<close>

lemma startswith_single [simp]:
  "startswith s [c] = (case s of [] \<Rightarrow> False | x # _ \<Rightarrow> x = c)"
  by (cases s) (simp_all add: startswith_def)

lemma endswith_single: "endswith s [c] = (s \<noteq> [] \<and> last s = c)"
proof (cases s rule: rev_cases)
  case Nil
  then show ?thesis by (simp add: endswith_def)
next
  case (snoc ys y)
  then show ?thesis by (simp add: endswith_def)
qed

lemma decode_value_v: "decode_value (str_of ''dg=='') = Some (str_of ''v'')"
  by (simp add: decode_value_def b64decode_def b64_value_def str_of_def is_cont_def)

lemma strip_K_line: "strip (str_of ''K=dg=='' @ [LF]) = str_of ''K=dg==''"
  by (simp add: strip_def lstrip_def rstrip_def isspace_def str_of_def)

lemma strip_K_line2: "strip (str_of ''K=dg=='') = str_of ''K=dg==''"
  by (simp add: strip_def lstrip_def rstrip_def isspace_def str_of_def)

lemma split_K_line: "split_on LF (str_of ''K=dg=='') = [str_of ''K=dg=='']"
  by (simp add: str_of_def)

lemma decode_K_line: "decode_line (str_of ''K=dg=='') keys = fmupd (str_of ''K'') (str_of ''v'') keys"
proof -
  have "split_first EQUALS (str_of ''K=dg=='') = (str_of ''K'', str_of ''dg=='')"
    by (simp add: split_first_def str_of_def)
  moreover have "str_of ''K=dg=='' \<noteq> [] \<and> \<not> startswith (str_of ''K=dg=='') [HASH]
      \<and> EQUALS \<in> set (str_of ''K=dg=='')"
    by (simp add: str_of_def)
  ultimately show ?thesis
    by (simp add: decode_line_def strip_K_line2 decode_value_v del: startswith_single)
qed

lemma decode_K_contents:
  "decode_contents (str_of ''K=dg=='' @ [LF]) = fmupd (str_of ''K'') (str_of ''v'') fmempty"
  by (simp add: decode_contents_def strip_K_line split_K_line decode_K_line)

lemma universal_newlines_K:
  "universal_newlines (str_of ''K=dg=='' @ [LF]) = str_of ''K=dg=='' @ [LF]"
  by (simp add: str_of_def)

lemma sorted_list_of_fmap_single: "sorted_list_of_fmap (fmupd k v fmempty) = [(k, v)]"
  by (simp add: sorted_list_of_fmap_def sorted_list_of_fset.rep_eq)

lemma utf8_encode_v: "utf8_encode (str_of ''v'') = Some [118]"
  by (simp add: utf8_encode_def encodable_def is_scalar_def utf8_encode_char_def str_of_def)

lemma encode_K_line: "encode_line (str_of ''K'', str_of ''v'') = Some (str_of ''K=dg=='')"
  unfolding encode_line_def by (simp add: utf8_encode_v) (simp add: str_of_def b64_char_def)

lemma encode_K_contents:
  "encode_contents (fmupd (str_of ''K'') (str_of ''v'') fmempty) = Some (str_of ''K=dg=='' @ [LF])"
  by (simp add: encode_contents_def sorted_list_of_fmap_single encode_K_line)

lemma encodable_K_data: "encodable (str_of ''K=dg=='' @ [LF])"
  by (simp add: encodable_def is_scalar_def str_of_def)

lemma encode_empty_contents: "encode_contents fmempty = Some []"
  by (simp add: encode_contents_def sorted_list_of_fmap_def sorted_list_of_fset.rep_eq)

lemma fmdrop_single: "fmdrop k (fmupd k v fmempty) = fmempty"
  by (rule fmap_ext) simp

section \<open>Duplicate keys in the contents text\<close>

lemma decode_line_lookup:
  "fmlookup (decode_line raw keys) x =
     (case fmlookup (decode_line raw fmempty) x of Some v \<Rightarrow> Some v | None \<Rightarrow> fmlookup keys x)"
  by (simp add: decode_line_def Let_def split: prod.splits option.splits del: startswith_single)

lemma fold_decode_line_untouched:
  assumes "\<forall>r \<in> set rs. fmlookup (decode_line r fmempty) k = None"
  shows "fmlookup (fold decode_line rs keys) k = fmlookup keys k"
  using assms
proof (induction rs arbitrary: keys)
  case Nil
  then show ?case by simp
next
  case (Cons r rs)
  then have "fmlookup (fold decode_line rs (decode_line r keys)) k = fmlookup (decode_line r keys) k"
    by simp
  also have "\<dots> = fmlookup keys k"
    using Cons.prems by (simp add: decode_line_lookup [of r keys])
  finally show ?case by simp
qed

lemma strip_plain:
  assumes "s \<noteq> []" "\<not> isspace (hd s)" "\<not> isspace (last s)"
  shows "strip s = s"
proof -
  have "lstrip s = s"
    using assms(2) by (simp add: lstrip_def dropWhile_eq_self_iff)
  moreover have "dropWhile isspace (rev s) = rev s"
    using assms(1,3) by (simp add: dropWhile_eq_self_iff hd_rev)
  ultimately show ?thesis
    by (simp add: strip_def rstrip_def)
qed

lemma decode_line_Kw: "decode_line (str_of ''K=dw=='') fmempty = fmupd (str_of ''K'') (str_of ''w'') fmempty"
proof -
  have s: "strip (str_of ''K=dw=='') = str_of ''K=dw==''"
    by (rule strip_plain) (simp_all add: str_of_def isspace_def)
  have "split_first EQUALS (str_of ''K=dw=='') = (str_of ''K'', str_of ''dw=='')"
    by (simp add: split_first_def str_of_def)
  moreover have "str_of ''K=dw=='' \<noteq> [] \<and> \<not> startswith (str_of ''K=dw=='') [HASH]
      \<and> EQUALS \<in> set (str_of ''K=dw=='')"
    by (simp add: str_of_def)
  moreover have "decode_value (str_of ''dw=='') = Some (str_of ''w'')"
    by (simp add: decode_value_def b64decode_def b64_value_def str_of_def is_cont_def)
  ultimately show ?thesis
    by (simp add: decode_line_def s del: startswith_single)
qed

lemma decode_line_Kd: "decode_line (str_of ''K=d'') fmempty = fmempty"
proof -
  have s: "strip (str_of ''K=d'') = str_of ''K=d''"
    by (rule strip_plain) (simp_all add: str_of_def isspace_def)
  have "split_first EQUALS (str_of ''K=d'') = (str_of ''K'', str_of ''d'')"
    by (simp add: split_first_def str_of_def)
  moreover have "decode_value (str_of ''d'') = None"
    by (simp add: decode_value_def b64decode_def b64_value_def str_of_def)
  ultimately show ?thesis
    by (simp add: decode_line_def s Let_def del: startswith_single)
qed

lemma three_lines:
  "split_on LF (strip (str_of ''K=dg=='' @ [LF] @ str_of ''K=dw=='' @ [LF] @ str_of ''K=d''))
    = [str_of ''K=dg==''] @ str_of ''K=dw=='' # [str_of ''K=d'']"
proof -
  have "strip (str_of ''K=dg=='' @ [LF] @ str_of ''K=dw=='' @ [LF] @ str_of ''K=d'')
    = str_of ''K=dg=='' @ [LF] @ str_of ''K=dw=='' @ [LF] @ str_of ''K=d''"
    by (rule strip_plain) (simp_all add: str_of_def isspace_def)
  then show ?thesis by (simp add: str_of_def)
qed

text \<open>
  C10: \<open>decode_contents\<close> is a total function, so a repeated key is no error. If \<open>raw\<close>
  is a line of the text that decodes to the binding of \<open>k\<close> to \<open>v\<close>, and no line after
  it decodes to a binding of \<open>k\<close>, then the result binds \<open>k\<close> to \<open>v\<close>, whatever the
  lines before it bound \<open>k\<close> to. (A line decodes to a binding exactly when
  \<open>decode_line\<close> adds that binding to the empty dict.)
\<close>

theorem last_decoded_line_wins:
  assumes "split_on LF (strip data) = before @ raw # after"
    and "decode_line raw fmempty = fmupd k v fmempty"
    and "\<forall>r \<in> set after. fmlookup (decode_line r fmempty) k = None"
  shows "fmlookup (decode_contents data) k = Some v"
proof -
  let ?m = "fold decode_line before fmempty"
  have "fmlookup (decode_contents data) k = fmlookup (fold decode_line after (decode_line raw ?m)) k"
    by (simp add: decode_contents_def assms(1))
  also have "\<dots> = fmlookup (decode_line raw ?m) k"
    using assms(3) by (rule fold_decode_line_untouched)
  also have "\<dots> = Some v"
    by (simp add: decode_line_lookup [of raw ?m] assms(2))
  finally show ?thesis .
qed

theorem last_decoded_line_wins_witness:
  "split_on LF (strip (str_of ''K=dg=='' @ [LF] @ str_of ''K=dw=='' @ [LF] @ str_of ''K=d''))
     = [str_of ''K=dg==''] @ str_of ''K=dw=='' # [str_of ''K=d'']
   \<and> decode_line (str_of ''K=dg=='') fmempty = fmupd (str_of ''K'') (str_of ''v'') fmempty
   \<and> decode_line (str_of ''K=dw=='') fmempty = fmupd (str_of ''K'') (str_of ''w'') fmempty
   \<and> decode_line (str_of ''K=d'') fmempty = fmempty
   \<and> fmlookup (decode_contents (str_of ''K=dg=='' @ [LF] @ str_of ''K=dw=='' @ [LF] @ str_of ''K=d''))
        (str_of ''K'') = Some (str_of ''w'')"
proof -
  have a: "\<forall>r \<in> set [str_of ''K=d'']. fmlookup (decode_line r fmempty) (str_of ''K'') = None"
    by (simp add: decode_line_Kd)
  show ?thesis
    using last_decoded_line_wins [OF three_lines decode_line_Kw a]
      three_lines decode_line_Kw decode_line_Kd decode_K_line [of fmempty]
    by blast
qed

section \<open>Writing and reading a name list\<close>

lemma universal_newlines_id: "CR \<notin> set s \<Longrightarrow> universal_newlines s = s"
  by (induction s rule: universal_newlines.induct) auto

lemma split_on_line: "sep \<notin> set k \<Longrightarrow> split_on sep (k @ sep # rest) = k # split_on sep rest"
  by (induction k) auto

lemma split_on_lines:
  "\<forall>k \<in> set ks. LF \<notin> set k \<Longrightarrow> split_on LF (concat (map (\<lambda>k. k @ [LF]) ks)) = ks @ [[]]"
  by (induction ks) (simp_all add: split_on_line)

lemma readlines_lines:
  assumes "\<forall>k \<in> set ks. LF \<notin> set k"
  shows "readlines (concat (map (\<lambda>k. k @ [LF]) ks)) = map (\<lambda>k. k @ [LF]) ks"
  by (simp add: readlines_def split_on_lines [OF assms])

lemma strip_fixed:
  assumes "strip k = k" "k \<noteq> []"
  shows "\<not> isspace (hd k) \<and> \<not> isspace (last k)"
proof -
  have "length (strip k) \<le> length (lstrip k)"
    using length_dropWhile_le [of isspace "rev (lstrip k)"] by (simp add: strip_def rstrip_def)
  moreover have "length (lstrip k) \<le> length k"
    by (simp add: lstrip_def length_dropWhile_le)
  ultimately have "length (lstrip k) = length k"
    using assms(1) by simp
  moreover have "length (takeWhile isspace k) + length (lstrip k) = length k"
    unfolding lstrip_def by (metis length_append takeWhile_dropWhile_id)
  ultimately have "takeWhile isspace k = []" by simp
  then have l: "lstrip k = k"
    unfolding lstrip_def by (metis append_Nil takeWhile_dropWhile_id)
  then have h: "\<not> isspace (hd k)"
    using assms(2) by (simp add: lstrip_def dropWhile_eq_self_iff)
  from assms(1) l have "rev (dropWhile isspace (rev k)) = k"
    by (simp add: strip_def rstrip_def)
  then have "dropWhile isspace (rev k) = rev k"
    by (metis rev_rev_ident)
  then have "\<not> isspace (hd (rev k))"
    using assms(2) by (simp add: dropWhile_eq_self_iff)
  with h assms(2) show ?thesis by (simp add: hd_rev)
qed

lemma strip_line:
  assumes "strip k = k" "k \<noteq> []"
  shows "strip (k @ [LF]) = k"
proof -
  from strip_fixed [OF assms] have h: "\<not> isspace (hd k)" and e: "\<not> isspace (last k)" by simp_all
  have "lstrip (k @ [LF]) = k @ [LF]"
    using h assms(2) by (simp add: lstrip_def dropWhile_eq_self_iff)
  moreover have "dropWhile isspace (rev (k @ [LF])) = rev k"
    using e assms(2) by (simp add: isspace_def dropWhile_eq_self_iff hd_rev)
  ultimately show ?thesis
    by (simp add: strip_def rstrip_def)
qed

lemma read_written_lines:
  assumes "\<forall>k \<in> set ks. k \<noteq> [] \<and> strip k = k \<and> LF \<notin> set k \<and> CR \<notin> set k"
  shows "filter (\<lambda>line. line \<noteq> [])
           (map strip (readlines (universal_newlines (concat (map (\<lambda>k. k @ [LF]) ks))))) = ks"
proof -
  have "CR \<notin> set (concat (map (\<lambda>k. k @ [LF]) ks))"
    using assms by auto
  then have u: "universal_newlines (concat (map (\<lambda>k. k @ [LF]) ks)) = concat (map (\<lambda>k. k @ [LF]) ks)"
    by (rule universal_newlines_id)
  have r: "readlines (concat (map (\<lambda>k. k @ [LF]) ks)) = map (\<lambda>k. k @ [LF]) ks"
    using assms by (intro readlines_lines) simp
  have m: "map strip (map (\<lambda>k. k @ [LF]) ks) = ks"
    using assms by (induction ks) (simp_all add: strip_line)
  have "filter (\<lambda>line. line \<noteq> []) ks = ks"
    using assms by (induction ks) simp_all
  then show ?thesis
    by (simp only: u r m)
qed

section \<open>Round trip of the key codec\<close>

subsection \<open>UTF-8\<close>

lemma three_digits:
  fixes c :: nat
  assumes "c < 0x10000"
  shows "c div 4096 < 16"
    "c div 4096 * 4096 + (c div 64) mod 64 * 64 + c mod 64 = c"
proof -
  show "c div 4096 < 16" using assms by (simp add: div_less_iff_less_mult)
  have "c div 64 div 64 = c div 4096" by (simp add: div_mult2_eq [symmetric])
  then have "c div 4096 * 64 + (c div 64) mod 64 = c div 64"
    by (metis div_mult_mod_eq)
  then have "(c div 4096 * 64 + (c div 64) mod 64) * 64 + c mod 64 = c"
    by simp
  then show "c div 4096 * 4096 + (c div 64) mod 64 * 64 + c mod 64 = c"
    by (simp add: algebra_simps)
qed

lemma four_digits:
  fixes c :: nat
  assumes "c < 0x110000"
  shows "c div 262144 < 5"
    "c div 262144 * 262144 + (c div 4096) mod 64 * 4096 + (c div 64) mod 64 * 64 + c mod 64 = c"
proof -
  show "c div 262144 < 5" using assms by (simp add: div_less_iff_less_mult)
  have a: "c div 64 div 64 = c div 4096" by (simp add: div_mult2_eq [symmetric])
  have b: "c div 4096 div 64 = c div 262144" by (simp add: div_mult2_eq [symmetric])
  have "c div 262144 * 64 + (c div 4096) mod 64 = c div 4096"
    using b by (metis div_mult_mod_eq)
  moreover have "c div 4096 * 64 + (c div 64) mod 64 = c div 64"
    using a by (metis div_mult_mod_eq)
  moreover have "c div 64 * 64 + c mod 64 = c" by simp
  ultimately have "((c div 262144 * 64 + (c div 4096) mod 64) * 64 + (c div 64) mod 64) * 64 + c mod 64 = c"
    by simp
  then show "c div 262144 * 262144 + (c div 4096) mod 64 * 4096 + (c div 64) mod 64 * 64 + c mod 64 = c"
    by (simp add: algebra_simps)
qed

lemma utf8_decode_two:
  assumes "2 \<le> x" "x < 32" "y < 64"
  shows "utf8_decode ([0xC0 + x, 0x80 + y] @ rest) = map_option ((#) (x * 64 + y)) (utf8_decode rest)"
  using assms by (simp add: is_cont_def)

lemma utf8_decode_three:
  assumes "x < 16" "y < 64" "z < 64" "0x800 \<le> x * 4096 + y * 64 + z"
    "is_scalar (x * 4096 + y * 64 + z)"
  shows "utf8_decode ([0xE0 + x, 0x80 + y, 0x80 + z] @ rest)
    = map_option ((#) (x * 4096 + y * 64 + z)) (utf8_decode rest)"
  using assms by (simp add: is_cont_def)

lemma utf8_decode_four:
  assumes "x < 5" "y < 64" "z < 64" "u < 64" "0x10000 \<le> x * 262144 + y * 4096 + z * 64 + u"
    "x * 262144 + y * 4096 + z * 64 + u < 0x110000"
  shows "utf8_decode ([0xF0 + x, 0x80 + y, 0x80 + z, 0x80 + u] @ rest)
    = map_option ((#) (x * 262144 + y * 4096 + z * 64 + u)) (utf8_decode rest)"
  using assms by (simp add: is_cont_def)

lemma utf8_char_roundtrip:
  assumes "is_scalar c"
  shows "utf8_decode (utf8_encode_char c @ rest) = map_option ((#) c) (utf8_decode rest)"
proof -
  consider (one) "c < 0x80" | (two) "0x80 \<le> c" "c < 0x800" | (three) "0x800 \<le> c" "c < 0x10000"
    | (four) "0x10000 \<le> c" "c < 0x110000"
    using assms unfolding is_scalar_def by linarith
  then show ?thesis
  proof cases
    case one
    then show ?thesis by (simp add: utf8_encode_char_def)
  next
    case two
    have d: "2 \<le> c div 64" "c div 64 < 32" "c mod 64 < 64"
      using two by (simp_all add: div_less_iff_less_mult less_eq_div_iff_mult_less_eq)
    have e: "utf8_encode_char c = [0xC0 + c div 64, 0x80 + c mod 64]"
      using two by (simp add: utf8_encode_char_def)
    show ?thesis
      unfolding e using utf8_decode_two [OF d, of rest] by simp
  next
    case three
    note d = three_digits [OF three(2)]
    have e: "utf8_encode_char c = [0xE0 + c div 4096, 0x80 + (c div 64) mod 64, 0x80 + c mod 64]"
      using three by (simp add: utf8_encode_char_def)
    have "utf8_decode ([0xE0 + c div 4096, 0x80 + (c div 64) mod 64, 0x80 + c mod 64] @ rest)
      = map_option ((#) (c div 4096 * 4096 + (c div 64) mod 64 * 64 + c mod 64)) (utf8_decode rest)"
      by (rule utf8_decode_three) (use d three assms in simp_all)
    then show ?thesis
      unfolding e d(2) .
  next
    case four
    note d = four_digits [OF four(2)]
    have e: "utf8_encode_char c = [0xF0 + c div 262144, 0x80 + (c div 4096) mod 64,
        0x80 + (c div 64) mod 64, 0x80 + c mod 64]"
      using four by (simp add: utf8_encode_char_def)
    have "utf8_decode ([0xF0 + c div 262144, 0x80 + (c div 4096) mod 64,
        0x80 + (c div 64) mod 64, 0x80 + c mod 64] @ rest)
      = map_option ((#) (c div 262144 * 262144 + (c div 4096) mod 64 * 4096
           + (c div 64) mod 64 * 64 + c mod 64)) (utf8_decode rest)"
      by (rule utf8_decode_four) (use d four in simp_all)
    then show ?thesis
      unfolding e d(2) .
  qed
qed

lemma utf8_roundtrip:
  "encodable s \<Longrightarrow> utf8_decode (concat (map utf8_encode_char s)) = Some s"
proof (induction s)
  case Nil
  then show ?case by simp
next
  case (Cons c s)
  then have "is_scalar c" "utf8_decode (concat (map utf8_encode_char s)) = Some s"
    by (simp_all add: encodable_def)
  then show ?case
    by (simp add: utf8_char_roundtrip del: utf8_decode.simps)
qed

lemma utf8_encode_char_bytes:
  "is_scalar c \<Longrightarrow> b \<in> set (utf8_encode_char c) \<Longrightarrow> b < 256"
  by (auto simp: utf8_encode_char_def is_scalar_def div_less_iff_less_mult split: if_splits)

lemma utf8_encode_bytes:
  assumes "utf8_encode s = Some bs"
  shows "\<forall>b \<in> set bs. b < 256"
proof
  fix b assume b: "b \<in> set bs"
  from assms have e: "\<forall>c \<in> set s. is_scalar c" and bs: "bs = concat (map utf8_encode_char s)"
    by (auto simp: utf8_encode_def encodable_def list_all_iff split: if_splits)
  from b bs obtain c where "c \<in> set s" "b \<in> set (utf8_encode_char c)" by auto
  with e show "b < 256" by (blast intro: utf8_encode_char_bytes)
qed

lemma utf8_encode_decode: "utf8_encode s = Some bs \<Longrightarrow> utf8_decode bs = Some s"
  by (auto simp: utf8_encode_def utf8_roundtrip split: if_splits)

subsection \<open>Base64\<close>

lemma b64_value_char: "i < 64 \<Longrightarrow> b64_value (b64_char i) = Some i"
  unfolding b64_value_def b64_char_def by (simp; linarith)

lemma b64_char_range: "43 \<le> b64_char i \<and> b64_char i \<le> 122 \<and> b64_char i \<noteq> EQUALS"
  unfolding b64_char_def by (simp; linarith)

lemma a2b_base64_char:
  assumes "i < 64"
  shows "a2b_base64 q l p out (b64_char i # cs) =
     (if q = 0 then a2b_base64 1 i 0 out cs
      else if q = 1 then a2b_base64 2 (i mod 16) 0 (out @ [l * 4 + i div 16]) cs
      else if q = 2 then a2b_base64 3 (i mod 4) 0 (out @ [l * 16 + i div 4]) cs
      else a2b_base64 0 0 0 (out @ [l * 64 + i]) cs)"
  using b64_char_range [of i] by (simp add: b64_value_char [OF assms])

lemma sextets:
  fixes a b c :: nat
  assumes "a < 256" "b < 256" "c < 256"
  shows "a div 4 < 64" "(a mod 4) * 16 + b div 16 < 64" "(b mod 16) * 4 + c div 64 < 64"
    "c mod 64 < 64" "(a mod 4) * 16 < 64" "(b mod 16) * 4 < 64"
  using assms by (simp_all add: div_less_iff_less_mult)

lemma small_digits:
  fixes b :: nat
  assumes "b < 256"
  shows "b div 16 div 16 = 0" "b div 16 mod 16 = b div 16"
    "b div 64 div 4 = 0" "b div 64 mod 4 = b div 64"
proof -
  have "b div 16 < 16" "b div 64 < 4"
    using assms by (simp_all add: div_less_iff_less_mult)
  then show "b div 16 div 16 = 0" "b div 16 mod 16 = b div 16"
    "b div 64 div 4 = 0" "b div 64 mod 4 = b div 64"
    by simp_all
qed

lemma a2b_base64_pad:
  "a2b_base64 q l p out (EQUALS # cs) =
     (if 2 \<le> q \<and> 4 \<le> q + (p + 1) then Some out
      else a2b_base64 q l (if 2 \<le> q then p + 1 else p) out cs)"
  by simp

lemma a2b_base64_encoded:
  assumes "\<forall>b \<in> set bs. b < 256"
  shows "a2b_base64 0 l p out (b64encode bs) = Some (out @ bs)"
  using assms
proof (induction bs arbitrary: l p out rule: b64encode.induct)
  case 1
  then show ?case by simp
next
  case (2 a)
  then have a: "a < 256" by simp
  note s = sextets [OF a a a]
  show ?case
    by (simp add: a2b_base64_char a2b_base64_pad s small_digits [OF a] del: a2b_base64.simps(2))
next
  case (3 a b)
  then have a: "a < 256" and b: "b < 256" by simp_all
  note s = sextets [OF a b b]
  show ?case
    by (simp add: a2b_base64_char a2b_base64_pad s small_digits [OF b] del: a2b_base64.simps(2))
next
  case (4 a b c bs)
  then have a: "a < 256" and b: "b < 256" and c: "c < 256" and bs: "\<forall>b \<in> set bs. b < 256"
    by simp_all
  note s = sextets [OF a b c]
  have "a2b_base64 0 l p out (b64encode (a # b # c # bs))
      = a2b_base64 0 0 0 (out @ [a, b, c]) (b64encode bs)"
    by (simp add: a2b_base64_char s small_digits [OF b] small_digits [OF c] del: a2b_base64.simps(2))
  also have "\<dots> = Some ((out @ [a, b, c]) @ bs)"
    using bs by (rule "4.IH")
  finally show ?case by simp
qed

lemma b64encode_chars:
  "c \<in> set (b64encode bs) \<Longrightarrow> 43 \<le> c \<and> c \<le> 122"
proof (induction bs rule: b64encode.induct)
  case 1
  then show ?case by simp
next
  case (2 a)
  then show ?case using b64_char_range by auto
next
  case (3 a b)
  then show ?case using b64_char_range by auto
next
  case (4 a b c bs)
  then show ?case using b64_char_range by auto
qed

lemma b64_roundtrip:
  assumes "\<forall>b \<in> set bs. b < 256"
  shows "b64decode (b64encode bs) = Some bs"
proof -
  have "list_all (\<lambda>c. c < 128) (b64encode bs)"
    unfolding list_all_iff using b64encode_chars [of _ bs] by fastforce
  then show ?thesis
    using a2b_base64_encoded [OF assms, of 0 0 "[]"] by (simp add: b64decode_def)
qed

lemma decode_value_encoded:
  assumes "utf8_encode v = Some bs"
  shows "decode_value (b64encode bs) = Some v"
  using b64_roundtrip [OF utf8_encode_bytes [OF assms]] utf8_encode_decode [OF assms]
  by (simp add: decode_value_def)

subsection \<open>One line\<close>

lemma b64_not_space: "43 \<le> c \<and> c \<le> 122 \<Longrightarrow> \<not> isspace c"
  by (simp add: isspace_def)

lemma encode_line_eq:
  "encode_line (k, v) = Some line \<Longrightarrow>
   \<exists>bs. utf8_encode v = Some bs \<and> line = k @ [EQUALS] @ b64encode bs"
  by (auto simp: encode_line_def split: option.splits)

lemma encoded_line_shape:
  assumes "encode_line (k, v) = Some line" and "lstrip k = k"
  shows "line \<noteq> [] \<and> \<not> isspace (hd line) \<and> \<not> isspace (last line)
    \<and> (LF \<notin> set k \<longrightarrow> LF \<notin> set line)"
proof -
  from encode_line_eq [OF assms(1)] obtain bs where
    line: "line = k @ [EQUALS] @ b64encode bs" by blast
  have eq: "\<not> isspace EQUALS" by (simp add: isspace_def)
  have h: "\<not> isspace (hd line)"
  proof (cases k)
    case Nil
    then show ?thesis using line eq by simp
  next
    case (Cons c cs)
    from assms(2) have "k = [] \<or> \<not> isspace (hd k)"
      unfolding lstrip_def by (simp only: dropWhile_eq_self_iff)
    with Cons line show ?thesis by simp
  qed
  have l: "\<not> isspace (last line)"
  proof (cases "b64encode bs = []")
    case True
    then show ?thesis using line eq by simp
  next
    case False
    then have "last line \<in> set (b64encode bs)"
      using line by simp
    then show ?thesis
      using b64encode_chars b64_not_space by blast
  qed
  have n: "LF \<notin> set k \<longrightarrow> LF \<notin> set line"
    using line b64encode_chars [of LF bs] by auto
  show ?thesis using line h l n by simp
qed

lemma split_first_found:
  "sep \<notin> set k \<Longrightarrow> split_first sep (k @ [sep] @ rest) = (k, rest)"
  by (induction k) (simp_all add: split_first_def)

lemma decode_encoded_line:
  assumes enc: "encode_line (k, v) = Some line"
    and k: "EQUALS \<notin> set k" "lstrip k = k" "\<not> startswith k [HASH]"
  shows "decode_line line m = fmupd k v m"
proof -
  from encode_line_eq [OF enc] obtain bs where
    bs: "utf8_encode v = Some bs" and line: "line = k @ [EQUALS] @ b64encode bs" by blast
  from encoded_line_shape [OF enc k(2)] have
    ne: "line \<noteq> []" and sh: "\<not> isspace (hd line)" "\<not> isspace (last line)" by simp_all
  have s: "strip line = line"
    using ne sh by (rule strip_plain)
  have h: "\<not> startswith line [HASH]"
    using k(3) line by (cases k) simp_all
  have e: "EQUALS \<in> set line" using line by simp
  have sp: "split_first EQUALS line = (k, b64encode bs)"
    unfolding line using k(1) by (rule split_first_found)
  have dv: "decode_value (b64encode bs) = Some v"
    using bs by (rule decode_value_encoded)
  show ?thesis
    unfolding decode_line_def s Let_def using ne h e by (simp add: sp dv del: startswith_single)
qed

subsection \<open>The whole text\<close>

lemma split_on_none: "sep \<notin> set s \<Longrightarrow> split_on sep s = [s]"
  by (induction s) auto

lemma split_on_join:
  "lines \<noteq> [] \<Longrightarrow> \<forall>l \<in> set lines. LF \<notin> set l \<Longrightarrow> split_on LF (join [LF] lines) = lines"
  by (induction "[LF]" lines rule: join.induct) (simp_all add: split_on_none split_on_line)

lemma join_ends:
  "lines \<noteq> [] \<Longrightarrow> \<forall>l \<in> set lines. l \<noteq> [] \<Longrightarrow>
   join sep lines \<noteq> [] \<and> hd (join sep lines) = hd (hd lines)
   \<and> last (join sep lines) = last (last lines)"
  by (induction sep lines rule: join.induct) simp_all

lemma strip_text:
  assumes "lines \<noteq> []"
    and "\<forall>l \<in> set lines. l \<noteq> [] \<and> \<not> isspace (hd l) \<and> \<not> isspace (last l)"
  shows "strip (join [LF] lines @ [LF]) = join [LF] lines"
proof -
  from assms have e: "join [LF] lines \<noteq> []" "hd (join [LF] lines) = hd (hd lines)"
    "last (join [LF] lines) = last (last lines)"
    using join_ends [of lines "[LF]"] by simp_all
  have "hd lines \<in> set lines" "last lines \<in> set lines"
    using assms(1) by simp_all
  with assms(2) e have "\<not> isspace (hd (join [LF] lines))" "\<not> isspace (last (join [LF] lines))"
    by simp_all
  with e(1) have "strip (join [LF] lines) = join [LF] lines"
    by (intro strip_plain)
  then show ?thesis
    using e(1) by (rule strip_line)
qed

lemma encode_lines_decode:
  assumes "encode_lines kvs = Some ls"
    and "\<forall>kv \<in> set kvs. EQUALS \<notin> set (fst kv) \<and> LF \<notin> set (fst kv) \<and> lstrip (fst kv) = fst kv
           \<and> \<not> startswith (fst kv) [HASH]"
  shows "fold decode_line ls m = fold (\<lambda>kv. fmupd (fst kv) (snd kv)) kvs m
    \<and> (\<forall>l \<in> set ls. l \<noteq> [] \<and> \<not> isspace (hd l) \<and> \<not> isspace (last l) \<and> LF \<notin> set l)
    \<and> (ls = []) = (kvs = [])"
  using assms
proof (induction kvs arbitrary: ls m)
  case Nil
  then show ?case by simp
next
  case (Cons kv kvs)
  obtain k v where kv: "kv = (k, v)" by (cases kv)
  from Cons.prems(1) obtain l ls' where
    l: "encode_line (k, v) = Some l" and ls': "encode_lines kvs = Some ls'" and ls: "ls = l # ls'"
    by (auto simp: kv split: option.splits)
  from Cons.prems(2) have k: "EQUALS \<notin> set k" "LF \<notin> set k" "lstrip k = k" "\<not> startswith k [HASH]"
    and rest: "\<forall>kv \<in> set kvs. EQUALS \<notin> set (fst kv) \<and> LF \<notin> set (fst kv)
         \<and> lstrip (fst kv) = fst kv \<and> \<not> startswith (fst kv) [HASH]"
    by (simp_all add: kv del: startswith_single)
  note ih = Cons.IH [OF ls' rest]
  have d: "decode_line l m = fmupd k v m"
    using l k(1,3,4) by (rule decode_encoded_line)
  have sh: "l \<noteq> [] \<and> \<not> isspace (hd l) \<and> \<not> isspace (last l) \<and> LF \<notin> set l"
    using encoded_line_shape [OF l k(3)] k(2) by simp
  show ?case
    using ih [of "fmupd k v m"] sh by (simp add: ls kv d)
qed

lemma encode_lines_total:
  "\<forall>kv \<in> set kvs. encodable (snd kv) \<Longrightarrow> \<exists>ls. encode_lines kvs = Some ls"
  by (induction kvs) (auto simp: encode_line_def utf8_encode_def)

lemma fold_fmupd_lookup:
  "distinct (map fst kvs) \<Longrightarrow>
   fmlookup (fold (\<lambda>kv. fmupd (fst kv) (snd kv)) kvs m) x =
     (case map_of kvs x of Some v \<Rightarrow> Some v | None \<Rightarrow> fmlookup m x)"
proof (induction kvs arbitrary: m)
  case Nil
  then show ?case by simp
next
  case (Cons kv kvs)
  then have "map_of kvs (fst kv) = None"
    by (simp add: map_of_eq_None_iff)
  with Cons show ?case
    by (cases kv) (auto split: option.splits)
qed

lemma fold_fmupd_sorted:
  "fold (\<lambda>kv. fmupd (fst kv) (snd kv)) (sorted_list_of_fmap M) fmempty = M"
proof (rule fmap_ext)
  fix x
  have "map fst (sorted_list_of_fmap M) = sorted_list_of_fset (fmdom M)"
    by (simp add: sorted_list_of_fmap_def comp_def)
  then have "distinct (map fst (sorted_list_of_fmap M))"
    by (simp add: sorted_list_of_fset.rep_eq)
  from fold_fmupd_lookup [OF this, of fmempty x]
  show "fmlookup (fold (\<lambda>kv. fmupd (fst kv) (snd kv)) (sorted_list_of_fmap M) fmempty) x
      = fmlookup M x"
    by (simp split: option.splits)
qed

lemma set_sorted_list_of_fmap:
  "kv \<in> set (sorted_list_of_fmap M) \<Longrightarrow> fmlookup M (fst kv) = Some (snd kv)"
  by (auto simp: sorted_list_of_fmap_def dest: fmdom_notD)

lemma encode_single_v:
  "encode_contents (fmupd k (str_of ''v'') fmempty) = Some (k @ str_of ''=dg=='' @ [LF])"
proof -
  have "encode_line (k, str_of ''v'') = Some (k @ str_of ''=dg=='')"
    unfolding encode_line_def by (simp add: utf8_encode_v) (simp add: str_of_def b64_char_def)
  then show ?thesis
    by (simp add: encode_contents_def sorted_list_of_fmap_single)
qed

lemma decode_hash_line: "decode_contents (str_of ''#k=dg=='' @ [LF]) = fmempty"
proof -
  have s: "strip (str_of ''#k=dg=='' @ [LF]) = str_of ''#k=dg==''"
    by (rule strip_line [OF strip_plain]) (simp_all add: str_of_def isspace_def)
  have l: "split_on LF (str_of ''#k=dg=='') = [str_of ''#k=dg=='']"
    by (rule split_on_none) (simp add: str_of_def)
  have t: "strip (str_of ''#k=dg=='') = str_of ''#k=dg==''"
    by (rule strip_plain) (simp_all add: str_of_def isspace_def)
  have "startswith (str_of ''#k=dg=='') [HASH]" by (simp add: str_of_def)
  then have "decode_line (str_of ''#k=dg=='') fmempty = fmempty"
    unfolding decode_line_def t Let_def by (simp del: startswith_single)
  then show ?thesis
    by (simp add: decode_contents_def s l)
qed

lemma decode_equals_line: "decode_contents (str_of ''a=b=dg=='' @ [LF]) = fmempty"
proof -
  have s: "strip (str_of ''a=b=dg=='' @ [LF]) = str_of ''a=b=dg==''"
    by (rule strip_line [OF strip_plain]) (simp_all add: str_of_def isspace_def)
  have l: "split_on LF (str_of ''a=b=dg=='') = [str_of ''a=b=dg=='']"
    by (rule split_on_none) (simp add: str_of_def)
  have t: "strip (str_of ''a=b=dg=='') = str_of ''a=b=dg==''"
    by (rule strip_plain) (simp_all add: str_of_def isspace_def)
  have sp: "split_first EQUALS (str_of ''a=b=dg=='') = (str_of ''a'', str_of ''b=dg=='')"
    by (simp add: split_first_def str_of_def)
  have b: "b64decode (str_of ''b=dg=='') = Some [109, 216]"
    by (simp add: b64decode_def b64_value_def str_of_def)
  have dv: "decode_value (str_of ''b=dg=='') = None"
    unfolding decode_value_def b by (simp add: is_cont_def)
  have c: "str_of ''a=b=dg=='' \<noteq> [] \<and> \<not> startswith (str_of ''a=b=dg=='') [HASH]
      \<and> EQUALS \<in> set (str_of ''a=b=dg=='')"
    by (simp add: str_of_def)
  have "decode_line (str_of ''a=b=dg=='') fmempty = fmempty"
    unfolding decode_line_def t Let_def using c by (simp add: sp dv del: startswith_single)
  then show ?thesis
    by (simp add: decode_contents_def s l)
qed

lemma decode_newline_key:
  "decode_contents (str_of ''a'' @ [LF] @ str_of ''b=dg=='' @ [LF])
     = fmupd (str_of ''b'') (str_of ''v'') fmempty"
proof -
  have s: "strip (str_of ''a'' @ [LF] @ str_of ''b=dg=='' @ [LF])
      = str_of ''a'' @ [LF] @ str_of ''b=dg==''"
    using strip_line [OF strip_plain, of "str_of ''a'' @ [LF] @ str_of ''b=dg==''"]
    by (simp add: str_of_def isspace_def)
  have l: "split_on LF (str_of ''a'' @ [LF] @ str_of ''b=dg=='') = [str_of ''a'', str_of ''b=dg=='']"
    by (simp add: str_of_def)
  have ta: "strip (str_of ''a'') = str_of ''a''"
    by (rule strip_plain) (simp_all add: str_of_def isspace_def)
  have a: "decode_line (str_of ''a'') fmempty = fmempty"
    unfolding decode_line_def ta Let_def by (simp add: str_of_def)
  have e: "encode_line (str_of ''b'', str_of ''v'') = Some (str_of ''b=dg=='')"
    unfolding encode_line_def by (simp add: utf8_encode_v) (simp add: str_of_def b64_char_def)
  have k: "EQUALS \<notin> set (str_of ''b'')" "lstrip (str_of ''b'') = str_of ''b''"
    "\<not> startswith (str_of ''b'') [HASH]"
    by (simp_all add: str_of_def lstrip_def isspace_def)
  have b: "decode_line (str_of ''b=dg=='') fmempty = fmupd (str_of ''b'') (str_of ''v'') fmempty"
    using e k by (rule decode_encoded_line)
  show ?thesis
    by (simp only: decode_contents_def s l fold_simps a b comp_def id_def)
qed

lemma decode_space_key:
  "decode_contents (str_of '' k=dg=='' @ [LF]) = fmupd (str_of ''k'') (str_of ''v'') fmempty"
proof -
  have s: "strip (str_of '' k=dg=='' @ [LF]) = str_of ''k=dg==''"
    by (simp add: strip_def lstrip_def rstrip_def isspace_def str_of_def)
  have l: "split_on LF (str_of ''k=dg=='') = [str_of ''k=dg=='']"
    by (rule split_on_none) (simp add: str_of_def)
  have e: "encode_line (str_of ''k'', str_of ''v'') = Some (str_of ''k=dg=='')"
    unfolding encode_line_def by (simp add: utf8_encode_v) (simp add: str_of_def b64_char_def)
  have k: "EQUALS \<notin> set (str_of ''k'')" "lstrip (str_of ''k'') = str_of ''k''"
    "\<not> startswith (str_of ''k'') [HASH]"
    by (simp_all add: str_of_def lstrip_def isspace_def)
  have b: "decode_line (str_of ''k=dg=='') fmempty = fmupd (str_of ''k'') (str_of ''v'') fmempty"
    using e k by (rule decode_encoded_line)
  show ?thesis
    by (simp only: decode_contents_def s l fold_simps b comp_def id_def)
qed

text \<open>
  C1, as stated for all key names, fails. A key that begins with \<open>#\<close> gives a line that
  the parser takes for a comment; a key that contains \<open>=\<close> is cut at its first \<open>=\<close>,
  and what follows is decoded as if it were the value; a key that contains a newline
  is spread over two lines; a key that begins with a space loses it when the line is
  stripped. In each case the values are valid and the decoded mapping differs from the
  one encoded.
\<close>

theorem contents_roundtrip_key_counterexample:
  "encodable (str_of ''v'')
   \<and> encode_contents (fmupd (str_of ''#k'') (str_of ''v'') fmempty)
       = Some (str_of ''#k=dg=='' @ [LF])
   \<and> decode_contents (str_of ''#k=dg=='' @ [LF]) = fmempty
   \<and> fmupd (str_of ''#k'') (str_of ''v'') fmempty \<noteq> fmempty
   \<and> encode_contents (fmupd (str_of ''a=b'') (str_of ''v'') fmempty)
       = Some (str_of ''a=b=dg=='' @ [LF])
   \<and> decode_contents (str_of ''a=b=dg=='' @ [LF]) = fmempty
   \<and> fmupd (str_of ''a=b'') (str_of ''v'') fmempty \<noteq> fmempty
   \<and> encode_contents (fmupd (str_of ''a'' @ [LF] @ str_of ''b'') (str_of ''v'') fmempty)
       = Some (str_of ''a'' @ [LF] @ str_of ''b=dg=='' @ [LF])
   \<and> decode_contents (str_of ''a'' @ [LF] @ str_of ''b=dg=='' @ [LF])
       = fmupd (str_of ''b'') (str_of ''v'') fmempty
   \<and> fmupd (str_of ''b'') (str_of ''v'') fmempty
       \<noteq> fmupd (str_of ''a'' @ [LF] @ str_of ''b'') (str_of ''v'') fmempty
   \<and> encode_contents (fmupd (str_of '' k'') (str_of ''v'') fmempty)
       = Some (str_of '' k=dg=='' @ [LF])
   \<and> decode_contents (str_of '' k=dg=='' @ [LF]) = fmupd (str_of ''k'') (str_of ''v'') fmempty
   \<and> fmupd (str_of ''k'') (str_of ''v'') fmempty \<noteq> fmupd (str_of '' k'') (str_of ''v'') fmempty"
proof -
  have "fmlookup (fmupd (str_of ''k'') (str_of ''v'') fmempty) (str_of ''k'')
      \<noteq> fmlookup (fmupd (str_of '' k'') (str_of ''v'') fmempty) (str_of ''k'')"
    by (simp add: str_of_def)
  then have n4: "fmupd (str_of ''k'') (str_of ''v'') fmempty
      \<noteq> fmupd (str_of '' k'') (str_of ''v'') fmempty"
    by metis
  have e4: "encode_contents (fmupd (str_of '' k'') (str_of ''v'') fmempty)
       = Some (str_of '' k=dg=='' @ [LF])"
    using encode_single_v [of "str_of '' k''"] by (simp add: str_of_def)
  have e: "encodable (str_of ''v'')"
    by (simp add: encodable_def is_scalar_def str_of_def)
  have n1: "fmupd (str_of ''#k'') (str_of ''v'') fmempty \<noteq> fmempty"
    by (metis fmempty_lookup fmupd_lookup option.distinct(1))
  have n2: "fmupd (str_of ''a=b'') (str_of ''v'') fmempty \<noteq> fmempty"
    by (metis fmempty_lookup fmupd_lookup option.distinct(1))
  have "fmlookup (fmupd (str_of ''b'') (str_of ''v'') fmempty) (str_of ''b'')
      \<noteq> fmlookup (fmupd (str_of ''a'' @ [LF] @ str_of ''b'') (str_of ''v'') fmempty) (str_of ''b'')"
    by (simp add: str_of_def)
  then have n3: "fmupd (str_of ''b'') (str_of ''v'') fmempty
       \<noteq> fmupd (str_of ''a'' @ [LF] @ str_of ''b'') (str_of ''v'') fmempty"
    by metis
  have e1: "encode_contents (fmupd (str_of ''#k'') (str_of ''v'') fmempty)
       = Some (str_of ''#k=dg=='' @ [LF])"
    using encode_single_v [of "str_of ''#k''"] by (simp add: str_of_def)
  have e2: "encode_contents (fmupd (str_of ''a=b'') (str_of ''v'') fmempty)
       = Some (str_of ''a=b=dg=='' @ [LF])"
    using encode_single_v [of "str_of ''a=b''"] by (simp add: str_of_def)
  have e3: "encode_contents (fmupd (str_of ''a'' @ [LF] @ str_of ''b'') (str_of ''v'') fmempty)
       = Some (str_of ''a'' @ [LF] @ str_of ''b=dg=='' @ [LF])"
    using encode_single_v [of "str_of ''a'' @ [LF] @ str_of ''b''"] by (simp add: str_of_def)
  show ?thesis
    using e n1 n2 n3 n4 e1 e2 e3 e4 decode_hash_line decode_equals_line decode_newline_key
      decode_space_key
    by blast
qed

text \<open>
  C1, amended: for every mapping whose values can be encoded in UTF-8 and whose key
  names contain neither \<open>=\<close> nor a newline and begin neither with \<open>#\<close> nor with a
  whitespace character, encoding succeeds and decoding the text gives the mapping back.
\<close>

theorem contents_roundtrip:
  assumes "\<forall>k. k |\<in>| fmdom M \<longrightarrow>
             EQUALS \<notin> set k \<and> LF \<notin> set k \<and> lstrip k = k \<and> \<not> startswith k [HASH]"
    and "\<forall>k v. fmlookup M k = Some v \<longrightarrow> encodable v"
  shows "\<exists>text. encode_contents M = Some text \<and> decode_contents text = M"
proof -
  let ?kvs = "sorted_list_of_fmap M"
  have vals: "\<forall>kv \<in> set ?kvs. encodable (snd kv)"
    using assms(2) set_sorted_list_of_fmap by blast
  have keys: "\<forall>kv \<in> set ?kvs. EQUALS \<notin> set (fst kv) \<and> LF \<notin> set (fst kv)
      \<and> lstrip (fst kv) = fst kv \<and> \<not> startswith (fst kv) [HASH]"
  proof
    fix kv assume "kv \<in> set ?kvs"
    then have "fmlookup M (fst kv) = Some (snd kv)" by (rule set_sorted_list_of_fmap)
    then have "fst kv |\<in>| fmdom M" by (rule fmdomI)
    with assms(1) show "EQUALS \<notin> set (fst kv) \<and> LF \<notin> set (fst kv)
      \<and> lstrip (fst kv) = fst kv \<and> \<not> startswith (fst kv) [HASH]"
      by blast
  qed
  from encode_lines_total [OF vals] obtain ls where ls: "encode_lines ?kvs = Some ls" by blast
  note d = encode_lines_decode [OF ls keys, of fmempty]
  show ?thesis
  proof (cases "ls = []")
    case True
    with d have "?kvs = []" by simp
    then have "fold (\<lambda>kv. fmupd (fst kv) (snd kv)) ?kvs fmempty = fmempty" by simp
    then have "M = fmempty" by (simp add: fold_fmupd_sorted)
    moreover have "decode_contents [] = fmempty"
      by (simp add: decode_contents_def strip_def lstrip_def rstrip_def decode_line_def)
    ultimately show ?thesis
      using ls True by (simp add: encode_contents_def)
  next
    case False
    have sh: "\<forall>l \<in> set ls. l \<noteq> [] \<and> \<not> isspace (hd l) \<and> \<not> isspace (last l)"
      using d by blast
    have nl: "\<forall>l \<in> set ls. LF \<notin> set l"
      using d by blast
    have "split_on LF (strip (join [LF] ls @ [LF])) = ls"
      using strip_text [OF False sh] split_on_join [OF False nl] by simp
    then have "decode_contents (join [LF] ls @ [LF]) = fold decode_line ls fmempty"
      by (simp add: decode_contents_def)
    also have "\<dots> = M"
      using d by (simp add: fold_fmupd_sorted)
    finally show ?thesis
      using ls False by (simp add: encode_contents_def)
  qed
qed

theorem contents_roundtrip_witness:
  "encode_contents (fmupd (str_of ''K'') (str_of ''v'') fmempty) = Some (str_of ''K=dg=='' @ [LF])
   \<and> decode_contents (str_of ''K=dg=='' @ [LF]) = fmupd (str_of ''K'') (str_of ''v'') fmempty"
proof -
  let ?M = "fmupd (str_of ''K'') (str_of ''v'') fmempty"
  have k: "\<forall>k. k |\<in>| fmdom ?M \<longrightarrow>
      EQUALS \<notin> set k \<and> LF \<notin> set k \<and> lstrip k = k \<and> \<not> startswith k [HASH]"
    by (simp add: str_of_def lstrip_def isspace_def)
  have v: "\<forall>k v. fmlookup ?M k = Some v \<longrightarrow> encodable v"
    by (simp add: encodable_def is_scalar_def str_of_def)
  from contents_roundtrip [OF k v] obtain t where
    "encode_contents ?M = Some t" "decode_contents t = ?M" by blast
  then show ?thesis
    by (simp add: encode_K_contents)
qed

section \<open>Path resolution\<close>

subsection \<open>Splitting a path into names\<close>

lemma split_on_not_Nil [simp]: "split_on sep s \<noteq> []"
  by (induction s) (simp_all split: list.split)

lemma split_on_Cons_other:
  "c \<noteq> sep \<Longrightarrow> split_on sep (c # cs) = (c # hd (split_on sep cs)) # tl (split_on sep cs)"
  by (cases "split_on sep cs") simp_all

lemma split_on_append_sep:
  "split_on sep (a @ sep # b) = split_on sep a @ split_on sep b"
proof (induction a)
  case Nil
  then show ?case by simp
next
  case (Cons c a)
  show ?case
  proof (cases "c = sep")
    case True
    then show ?thesis using Cons by simp
  next
    case False
    then show ?thesis
      using Cons by (cases "split_on sep a") (simp_all add: split_on_Cons_other)
  qed
qed

lemma split_on_append_last:
  "sep \<notin> set sfx \<Longrightarrow>
   split_on sep (x @ sfx) = butlast (split_on sep x) @ [last (split_on sep x) @ sfx]"
proof (induction x)
  case Nil
  then show ?case by (simp add: split_on_none)
next
  case (Cons c x)
  show ?case
  proof (cases "c = sep")
    case True
    then show ?thesis using Cons by simp
  next
    case False
    obtain l ls where s: "split_on sep x = l # ls"
      by (cases "split_on sep x") simp_all
    show ?thesis
    proof (cases ls)
      case Nil
      then show ?thesis using Cons False s by simp
    next
      case (Cons l' ls')
      then show ?thesis using Cons.IH Cons.prems False s by simp
    qed
  qed
qed

lemma components_Nil [simp]: "components [] = []"
  by (simp add: components_def)

lemma components_single: "SLASH \<notin> set b \<Longrightarrow> b \<noteq> [] \<Longrightarrow> components b = [b]"
  by (simp add: components_def split_on_none)

lemma components_append_sep: "components (a @ SLASH # b) = components a @ components b"
  by (simp add: components_def split_on_append_sep)

lemma components_append_last:
  "SLASH \<notin> set sfx \<Longrightarrow> sfx \<noteq> [] \<Longrightarrow>
   components (x @ sfx)
     = filter (\<lambda>c. c \<noteq> []) (butlast (split_on SLASH x)) @ [last (split_on SLASH x) @ sfx]"
  by (simp add: components_def split_on_append_last)

lemma path_ok_append [simp]: "path_ok (a @ b) = (path_ok a \<and> path_ok b)"
  by (simp add: path_ok_def)

lemma path_ok_slash [simp]: "path_ok [SLASH]"
  by (simp add: path_ok_def is_scalar_def)

lemma path_ok_slash_Cons [simp]: "path_ok (SLASH # b) = path_ok b"
  by (simp add: path_ok_def is_scalar_def)

subsection \<open>Joined paths\<close>

lemma os_path_join_cases:
  assumes "\<not> startswith b [SLASH]"
  obtains "a = []" "os_path_join a b = b"
  | a' where "a = a' @ [SLASH]" "os_path_join a b = a' @ SLASH # b"
  | "a \<noteq> []" "\<not> endswith a [SLASH]" "os_path_join a b = a @ SLASH # b"
proof (cases "a = []")
  case True
  then show ?thesis using assms that(1) by (simp add: os_path_join_def)
next
  case False
  show ?thesis
  proof (cases "endswith a [SLASH]")
    case True
    then have "a = butlast a @ [SLASH]"
      using False by (simp add: endswith_single) (metis append_butlast_last_id)
    moreover have "os_path_join a b = a @ b"
      using True assms by (simp add: os_path_join_def)
    ultimately show ?thesis using that(2) [of "butlast a"]
      by (metis append.assoc append_Cons append_Nil)
  next
    case e: False
    then show ?thesis using False assms that(3) by (simp add: os_path_join_def)
  qed
qed

lemma os_path_join_suffix:
  "\<not> startswith sfx [SLASH] \<Longrightarrow> os_path_join a (n @ sfx) = os_path_join a n @ sfx"
  by (cases n) (auto simp: os_path_join_def split: list.splits)

lemma components_trailing_sep: "components (a @ [SLASH]) = components a"
  using components_append_sep [of a "[]"] by simp

lemma components_join:
  assumes "SLASH \<notin> set b" "b \<noteq> []"
  shows "components (os_path_join a b) = components a @ [b]"
proof -
  have nb: "\<not> startswith b [SLASH]"
    using assms by (cases b) simp_all
  show ?thesis
    using nb
  proof (cases rule: os_path_join_cases [of b a])
    case 1
    then show ?thesis using assms by (simp add: components_single)
  next
    case (2 a')
    then show ?thesis
      using assms by (simp add: components_append_sep components_trailing_sep components_single)
  next
    case 3
    then show ?thesis
      using assms by (simp add: components_append_sep components_single)
  qed
qed

lemma startswith_append: "a \<noteq> [] \<Longrightarrow> startswith (a @ b) [c] = startswith a [c]"
  by (cases a) simp_all

lemma start_of_join:
  assumes "\<not> startswith b [SLASH]" "a \<noteq> []"
  shows "start_of w (os_path_join a b) = start_of w a"
  using assms(1)
proof (cases rule: os_path_join_cases [of b a])
  case 1
  then show ?thesis using assms by simp
next
  case (2 a')
  then show ?thesis
    by (cases a') (simp_all add: start_of_def)
next
  case 3
  then show ?thesis using assms(2) by (cases a) (simp_all add: start_of_def)
qed

lemma path_ok_join:
  "\<not> startswith b [SLASH] \<Longrightarrow> path_ok (os_path_join a b) = (path_ok a \<and> path_ok b)"
  by (auto simp: os_path_join_def path_ok_def is_scalar_def)

lemma join_not_trailing:
  "b \<noteq> [] \<Longrightarrow> last b \<noteq> SLASH \<Longrightarrow> \<not> endswith (os_path_join a b) [SLASH]"
  by (simp add: os_path_join_def endswith_single)

lemma join_not_Nil: "b \<noteq> [] \<Longrightarrow> os_path_join a b \<noteq> []"
  by (simp add: os_path_join_def)

subsection \<open>Walking\<close>

lemma walk_append:
  "walk w cur (cs @ ds) = (case walk w cur cs of None \<Rightarrow> None | Some l \<Rightarrow> walk w l ds)"
  by (induction cs arbitrary: cur) simp_all

lemma walk_single: "walk w l [c] = (if is_dir w l then Some (step l c) else None)"
  by simp

lemma step_name: "c \<noteq> str_of ''.'' \<Longrightarrow> c \<noteq> str_of ''..'' \<Longrightarrow> step l c = l @ [c]"
  by (simp add: step_def)

lemma long_name: "2 < length c \<Longrightarrow> c \<noteq> str_of ''.'' \<and> c \<noteq> str_of ''..''"
  by (auto simp: str_of_def)

lemma is_dir_cong: "dirs w' = dirs w \<Longrightarrow> is_dir w' l = is_dir w l"
  by (simp add: is_dir_def)

lemma walk_cong:
  assumes "dirs w' = dirs w"
  shows "walk w' cur cs = walk w cur cs"
  by (induction cs arbitrary: cur) (simp_all add: is_dir_cong [OF assms])

lemma resolve_cong:
  assumes "dirs w' = dirs w" "cwd w' = cwd w"
  shows "resolve w' p = resolve w p"
  unfolding resolve_def start_of_def walk_cong [OF assms(1)] is_dir_cong [OF assms(1)] assms(2)
  by (rule refl)


text \<open>
  The path of an entry \<open>b\<close> of a directory \<open>a\<close> leads to the location of \<open>a\<close> extended by
  \<open>b\<close>, when \<open>a\<close> is a directory.
\<close>

lemma resolve_join:
  assumes "SLASH \<notin> set b" "b \<noteq> []" "b \<noteq> str_of ''.''" "b \<noteq> str_of ''..''" "path_ok b"
    and "a \<noteq> []"
  shows "resolve w (os_path_join a b)
     = (case resolve w a of None \<Rightarrow> None
        | Some dl \<Rightarrow> if is_dir w dl then Some (dl @ [b]) else None)"
proof -
  have nb: "\<not> startswith b [SLASH]"
    using assms(1,2) by (cases b) simp_all
  have lb: "last b \<noteq> SLASH"
    using assms(1,2) by (metis last_in_set)
  have nt: "\<not> endswith (os_path_join a b) [SLASH]"
    using assms(2) lb by (rule join_not_trailing)
  have ne: "os_path_join a b \<noteq> []"
    using assms(2) by (rule join_not_Nil)
  show ?thesis
  proof (cases "path_ok a")
    case False
    then show ?thesis
      using nb by (simp add: resolve_def path_ok_join)
  next
    case True
    show ?thesis
    proof (cases "walk w (start_of w a) (components a)")
      case None
      then show ?thesis
        using True assms nb ne
        by (simp add: resolve_def path_ok_join components_join [OF assms(1,2)] start_of_join
            walk_append)
    next
      case (Some l)
      then show ?thesis
        using True assms nb ne nt
        by (simp add: resolve_def path_ok_join components_join [OF assms(1,2)] start_of_join
            walk_append step_name)
    qed
  qed
qed

text \<open>
  A path that ends with a suffix without \<open>/\<close> leads into the directory that the part
  before the last \<open>/\<close> names, to the entry named by what comes after the last \<open>/\<close>.
\<close>

lemma resolve_suffixed:
  assumes "SLASH \<notin> set sfx" "2 < length sfx" "path_ok sfx"
  shows "resolve w (x @ sfx)
     = (if \<not> path_ok x then None
        else (case walk w (start_of w (x @ sfx))
                     (filter (\<lambda>c. c \<noteq> []) (butlast (split_on SLASH x))) of
                None \<Rightarrow> None
              | Some d \<Rightarrow>
                  if is_dir w d then Some (d @ [last (split_on SLASH x) @ sfx]) else None))"
proof -
  have ne: "sfx \<noteq> []" using assms(2) by auto
  have lb: "last sfx \<noteq> SLASH"
    using assms(1) ne by (metis last_in_set)
  have nt: "\<not> endswith (x @ sfx) [SLASH]"
    using ne lb by (simp add: endswith_single)
  let ?c = "last (split_on SLASH x) @ sfx"
  have "length ?c > 2" using assms(2) by simp
  then have "?c \<noteq> str_of ''.'' \<and> ?c \<noteq> str_of ''..''"
    by (rule long_name)
  then have st: "\<And>d. step d ?c = d @ [?c]"
    by (simp add: step_name)
  show ?thesis
    using assms(3) ne nt
    by (simp add: resolve_def components_append_last [OF assms(1) ne] walk_append st
        split: option.split)
qed

lemma start_of_suffix:
  "\<not> startswith s1 [SLASH] \<Longrightarrow> \<not> startswith s2 [SLASH] \<Longrightarrow>
   start_of w (x @ s1) = start_of w (x @ s2)"
  by (cases x) (simp_all add: start_of_def)

text \<open>Two paths that differ in such a suffix only lead to different entries of one directory.\<close>

lemma resolve_suffixes:
  assumes "SLASH \<notin> set s1" "2 < length s1" "path_ok s1"
    and "SLASH \<notin> set s2" "2 < length s2" "path_ok s2"
    and "resolve w (x @ s1) = Some l"
  shows "resolve w (x @ s2) = Some (butlast l @ [last (split_on SLASH x) @ s2])"
proof -
  have n1: "\<not> startswith s1 [SLASH]" using assms(1,2) by (cases s1) simp_all
  have n2: "\<not> startswith s2 [SLASH]" using assms(4,5) by (cases s2) simp_all
  have s: "start_of w (x @ s2) = start_of w (x @ s1)"
    using n2 n1 by (rule start_of_suffix)
  show ?thesis
    using assms(7)
    unfolding resolve_suffixed [OF assms(1,2,3)] resolve_suffixed [OF assms(4,5,6)] s
    by (auto split: if_splits option.splits)
qed

lemma resolve_suffixed_last:
  assumes "SLASH \<notin> set sfx" "2 < length sfx" "path_ok sfx"
    and "resolve w (x @ sfx) = Some l"
  shows "l \<noteq> [] \<and> last l = last (split_on SLASH x) @ sfx"
  using assms(4) unfolding resolve_suffixed [OF assms(1,2,3)]
  by (auto split: if_splits option.splits)

section \<open>Start-up\<close>

lemma mkdir_walk_frame:
  "mkdir_walk w cur cs = Some w' \<Longrightarrow> files w' = files w \<and> cwd w' = cwd w \<and> calls w' = calls w"
proof (induction cs arbitrary: w cur)
  case Nil
  then show ?case by simp
next
  case (Cons c cs)
  then show ?case
    by (cases "step cur c = []") (auto simp: Let_def split: if_splits)
qed

lemma makedirs_frame:
  "makedirs w p = Some w' \<Longrightarrow> files w' = files w \<and> cwd w' = cwd w \<and> calls w' = calls w"
  by (auto simp: makedirs_def dest: mkdir_walk_frame split: if_splits)

lemmas init_defs =
  AKConfig_init_def get_config_dir_def getenv_def getenv_default_def expanduser_home_def
  check_gpg_available_def disable_gpg_truthy_def os_path_join_def str_of_def
  endswith_def lower_def lower_char_def Let_def makedirs_def start_of_def components_def
  step_def path_ok_def is_scalar_def

lemma home_init: "AKConfig_init home_env toy_gpg empty_world = Some (home_config, home_world)"
  by (auto simp: init_defs home_env_def toy_gpg_def empty_world_def home_config_def home_world_def
      ak_loc_def profiles_loc_def)

lemma disabled_truthy: "disable_gpg_truthy disabled_env"
  by (simp add: disabled_env_def disable_gpg_truthy_def getenv_default_def getenv_def
      lower_def lower_char_def str_of_def)

lemma disabled_init:
  "AKConfig_init disabled_env toy_gpg empty_world
     = Some (home_config\<lparr>force_plain := True\<rparr>, home_world)"
  by (auto simp: init_defs disabled_env_def toy_gpg_def empty_world_def home_config_def
      home_world_def ak_loc_def profiles_loc_def)

section \<open>The disable flag and the availability flag\<close>

text \<open>
  C3, as stated, fails: with \<open>AK_DISABLE_GPG=1\<close> and a \<open>gpg\<close> that answers the probe,
  \<open>AKConfig.__init__\<close> still runs the probe, sets \<open>gpg_available\<close> to true, and the health
  probe reports true.
\<close>

theorem gpg_flag_ignores_disable_counterexample:
  "disable_gpg_truthy disabled_env
   \<and> map_option (gpg_available \<circ> fst) (AKConfig_init disabled_env toy_gpg empty_world) = Some True
   \<and> map_option (calls \<circ> snd) (AKConfig_init disabled_env toy_gpg empty_world) = Some [GpgVersion]
   \<and> map_option (health_check \<circ> fst) (AKConfig_init disabled_env toy_gpg empty_world)
       = Some (HealthInfo ''healthy'' (str_of ''/h/.config/ak'') True, 200)"
  by (simp add: disabled_truthy disabled_init home_config_def home_world_def health_check_def)

text \<open>
  C3, amended. Whatever \<open>AK_DISABLE_GPG\<close> holds, a constructor that returns has run the
  version probe, and the flag \<open>gpg_available\<close>, which the health probe reports, is the
  outcome of that probe alone: true exactly when \<open>gpg --version\<close> exited with 0. The
  disable flag is kept in the separate field \<open>force_plain\<close>, which is true exactly when
  \<open>AK_DISABLE_GPG\<close> is truthy; when it is, every call of \<open>decrypt_gpg_data\<close> and
  \<open>encrypt_gpg_data\<close> gives up at once, starting no subprocess and leaving the state as
  it is.
\<close>

theorem disable_flag_forces_plain:
  assumes "AKConfig_init env gpg w = Some (cfg, w')"
  shows "gpg_available cfg = (version_probe gpg = Returned 0)
    \<and> calls w' = calls w @ [GpgVersion]
    \<and> health_check cfg
        = (HealthInfo ''healthy'' (config_dir cfg) (version_probe gpg = Returned 0), 200)
    \<and> force_plain cfg = disable_gpg_truthy env
    \<and> (disable_gpg_truthy env \<longrightarrow>
         (\<forall>path w2. decrypt_gpg_data cfg gpg path w2 = (None, w2))
         \<and> (\<forall>data path w2. encrypt_gpg_data cfg gpg data path w2 = (False, w2)))"
proof -
  let ?w1 = "w\<lparr>calls := calls w @ [GpgVersion]\<rparr>"
  let ?cdir = "get_config_dir env"
  from assms obtain a w2 w3 where
    probe: "fst (check_gpg_available gpg w) = Some a"
    and cfg: "cfg = \<lparr>config_dir = ?cdir,
        profiles_dir = os_path_join ?cdir (str_of ''profiles''),
        persist_dir = os_path_join ?cdir (str_of ''persist''),
        vault_path = os_path_join ?cdir (str_of ''keys.env.gpg''),
        gpg_available = a, force_plain = disable_gpg_truthy env,
        preset_passphrase = getenv_default env ''AK_PASSPHRASE'' []\<rparr>"
    and m1: "makedirs ?w1 ?cdir = Some w2"
    and m2: "makedirs w2 (os_path_join ?cdir (str_of ''profiles'')) = Some w3"
    and m3: "makedirs w3 (os_path_join ?cdir (str_of ''persist'')) = Some w'"
    by (auto simp: AKConfig_init_def Let_def check_gpg_available_def
        split: option.splits prod.splits)
  from probe have a: "a = (version_probe gpg = Returned 0)"
    by (auto simp: check_gpg_available_def split: run_result.splits)
  have w': "calls w' = calls w @ [GpgVersion]"
    using makedirs_frame [OF m1] makedirs_frame [OF m2] makedirs_frame [OF m3] by simp
  show ?thesis
    using a w' cfg by (simp add: health_check_def decrypt_gpg_data_def encrypt_gpg_data_def)
qed

theorem disable_flag_forces_plain_witness:
  "disable_gpg_truthy disabled_env
   \<and> AKConfig_init disabled_env toy_gpg empty_world
       = Some (home_config\<lparr>force_plain := True\<rparr>, home_world)
   \<and> force_plain (home_config\<lparr>force_plain := True\<rparr>)
   \<and> gpg_available (home_config\<lparr>force_plain := True\<rparr>)
   \<and> calls home_world = [GpgVersion]
   \<and> decrypt_gpg_data (home_config\<lparr>force_plain := True\<rparr>) toy_gpg (str_of ''/x'') home_world
       = (None, home_world)
   \<and> encrypt_gpg_data (home_config\<lparr>force_plain := True\<rparr>) toy_gpg (str_of ''d'') (str_of ''/x'')
       home_world = (False, home_world)"
  using disable_flag_forces_plain [OF disabled_init] disabled_truthy disabled_init
  by (simp add: toy_gpg_def empty_world_def)

section \<open>Paths of a profile\<close>

lemma os_path_join_relative:
  "\<not> startswith b [SLASH] \<Longrightarrow> a \<noteq> [] \<Longrightarrow> last a \<noteq> SLASH \<Longrightarrow> os_path_join a b = a @ [SLASH] @ b"
  by (simp add: os_path_join_def endswith_single del: startswith_single)

lemma os_path_join_absolute: "startswith b [SLASH] \<Longrightarrow> os_path_join a b = b"
  by (simp add: os_path_join_def del: startswith_single)

lemma os_path_join_last:
  "b \<noteq> [] \<Longrightarrow> os_path_join a b \<noteq> [] \<and> last (os_path_join a b) = last b"
  by (simp add: os_path_join_def)

lemma init_profiles_dir:
  assumes "AKConfig_init env gpg w = Some (cfg, w')"
  shows "profiles_dir cfg \<noteq> [] \<and> last (profiles_dir cfg) \<noteq> SLASH"
proof -
  from assms have "profiles_dir cfg = os_path_join (get_config_dir env) (str_of ''profiles'')"
    by (auto simp: AKConfig_init_def Let_def split: option.splits prod.splits)
  moreover have "str_of ''profiles'' \<noteq> [] \<and> last (str_of ''profiles'') \<noteq> SLASH"
    by (simp add: str_of_def)
  ultimately show ?thesis using os_path_join_last [of "str_of ''profiles''" "get_config_dir env"]
    by simp
qed

lemma startswith_suffix_profile:
  "startswith (name @ str_of ''.profile'') [SLASH] = startswith name [SLASH]"
  by (cases name) (simp_all add: str_of_def)

lemma profile_path_eq:
  assumes "profiles_dir cfg \<noteq> []" "last (profiles_dir cfg) \<noteq> SLASH"
  shows "profile_path cfg name =
     (if startswith name [SLASH] then name @ str_of ''.profile''
      else profiles_dir cfg @ [SLASH] @ name @ str_of ''.profile'')"
  using assms os_path_join_relative [of "name @ str_of ''.profile''" "profiles_dir cfg"]
    os_path_join_absolute [of "name @ str_of ''.profile''" "profiles_dir cfg"]
  by (simp add: profile_path_def startswith_suffix_profile del: startswith_single)

text \<open>The three suffixes of the artifacts of a profile.\<close>

lemma suffix_facts:
  assumes "sfx = str_of ''.profile'' \<or> sfx = str_of ''.keys.gpg'' \<or> sfx = str_of ''.keys''"
  shows "SLASH \<notin> set sfx" "2 < length sfx" "path_ok sfx" "\<not> startswith sfx [SLASH]"
  using assms by (auto simp: str_of_def path_ok_def is_scalar_def)

text \<open>
  For a name without \<open>/\<close>, each artifact is the entry of the profiles directory with the
  name and the suffix.
\<close>

lemma artifact_resolve:
  assumes "SLASH \<notin> set name" "path_ok name" "profiles_dir cfg \<noteq> []"
    and "sfx = str_of ''.profile'' \<or> sfx = str_of ''.keys.gpg'' \<or> sfx = str_of ''.keys''"
  shows "resolve w (os_path_join (profiles_dir cfg) (name @ sfx))
     = (case resolve w (profiles_dir cfg) of None \<Rightarrow> None
        | Some dl \<Rightarrow> if is_dir w dl then Some (dl @ [name @ sfx]) else None)"
proof -
  note s = suffix_facts [OF assms(4)]
  have "2 < length (name @ sfx)" using s(2) by simp
  then have "name @ sfx \<noteq> str_of ''.'' \<and> name @ sfx \<noteq> str_of ''..''"
    by (rule long_name)
  moreover have "SLASH \<notin> set (name @ sfx)" using assms(1) s(1) by simp
  moreover have "name @ sfx \<noteq> []" using s(2) by auto
  moreover have "path_ok (name @ sfx)" using assms(2) s(3) by simp
  ultimately show ?thesis
    using assms(3) by (intro resolve_join) simp_all
qed

lemma artifact_unresolved:
  assumes "\<not> path_ok name"
    and "sfx = str_of ''.profile'' \<or> sfx = str_of ''.keys.gpg'' \<or> sfx = str_of ''.keys''"
  shows "resolve w (os_path_join (profiles_dir cfg) (name @ sfx)) = None"
proof -
  have "\<not> startswith (name @ sfx) [SLASH] \<or> os_path_join (profiles_dir cfg) (name @ sfx) = name @ sfx"
    by (auto simp: os_path_join_def)
  then have "\<not> path_ok (os_path_join (profiles_dir cfg) (name @ sfx))"
    using assms(1) by (auto simp: path_ok_join)
  then show ?thesis by (simp add: resolve_def)
qed

subsection \<open>The listing of the profiles directory\<close>

lemma set_listdir:
  assumes "resolve w d = Some l" "is_dir w l"
  shows "\<exists>names. listdir w d = Some names
     \<and> set names = last ` {e. (e |\<in>| fmdom (files w) \<or> e |\<in>| dirs w) \<and> e \<noteq> [] \<and> butlast e = l}"
  using assms by (auto simp: listdir_def)

lemma take_profile_suffix: "take (length (n @ str_of ''.profile'') - 8) (n @ str_of ''.profile'') = n"
  by (simp add: str_of_def)

lemma endswith_profile_suffix: "endswith (n @ str_of ''.profile'') (str_of ''.profile'')"
  by (simp add: endswith_def)

lemma endswith_split:
  "endswith f sfx \<Longrightarrow> f = take (length f - length sfx) f @ sfx"
  by (metis append_take_drop_id endswith_def)


lemma list_profiles_dir:
  assumes "resolve w (profiles_dir cfg) = Some dl" "is_dir w dl"
  shows "\<exists>ps. list_profiles cfg w = Some ps
     \<and> (\<forall>n. n \<in> set ps \<longleftrightarrow>
          (dl @ [n @ str_of ''.profile''] |\<in>| fmdom (files w)
           \<or> dl @ [n @ str_of ''.profile''] |\<in>| dirs w))"
proof -
  from set_listdir [OF assms] obtain names where
    l: "listdir w (profiles_dir cfg) = Some names"
    and s: "set names
      = last ` {e. (e |\<in>| fmdom (files w) \<or> e |\<in>| dirs w) \<and> e \<noteq> [] \<and> butlast e = dl}"
    by blast
  let ?ps = "sort (map (\<lambda>filename. take (length filename - 8) filename)
      (filter (\<lambda>filename. endswith filename (str_of ''.profile'')) names))"
  have lp: "list_profiles cfg w = Some ?ps"
    using assms l by (simp add: list_profiles_def os_path_exists_def)
  have "n \<in> set ?ps \<longleftrightarrow>
          (dl @ [n @ str_of ''.profile''] |\<in>| fmdom (files w)
           \<or> dl @ [n @ str_of ''.profile''] |\<in>| dirs w)" for n
  proof
    assume "n \<in> set ?ps"
    then obtain f where f: "f \<in> set names" "endswith f (str_of ''.profile'')"
      "n = take (length f - 8) f"
      by auto
    have "length (str_of ''.profile'') = 8" by (simp add: str_of_def)
    with endswith_split [OF f(2)] f(3) have fn: "f = n @ str_of ''.profile''"
      by simp
    from f(1) s obtain e where e: "e |\<in>| fmdom (files w) \<or> e |\<in>| dirs w" "e \<noteq> []"
      "butlast e = dl" "f = last e"
      by auto
    from e(2,3,4) have "e = dl @ [f]"
      by (metis append_butlast_last_id)
    with e(1) fn show "dl @ [n @ str_of ''.profile''] |\<in>| fmdom (files w)
           \<or> dl @ [n @ str_of ''.profile''] |\<in>| dirs w"
      by simp
  next
    let ?e = "dl @ [n @ str_of ''.profile'']"
    assume "?e |\<in>| fmdom (files w) \<or> ?e |\<in>| dirs w"
    then have "?e \<in> {e. (e |\<in>| fmdom (files w) \<or> e |\<in>| dirs w) \<and> e \<noteq> [] \<and> butlast e = dl}"
      by simp
    then have "last ?e \<in> set names"
      unfolding s by (rule imageI)
    then have "n @ str_of ''.profile'' \<in> set names" by simp
    then have "n @ str_of ''.profile''
        \<in> {x \<in> set names. endswith x (str_of ''.profile'')}"
      using endswith_profile_suffix [of n] by simp
    then have "(\<lambda>x. take (length x - 8) x) (n @ str_of ''.profile'')
        \<in> (\<lambda>x. take (length x - 8) x) ` {x \<in> set names. endswith x (str_of ''.profile'')}"
      by (rule imageI)
    then have "n \<in> (\<lambda>x. take (length x - 8) x) ` {x \<in> set names. endswith x (str_of ''.profile'')}"
      by (simp only: take_profile_suffix)
    then show "n \<in> set ?ps"
      by simp
  qed
  with lp show ?thesis by blast
qed

subsection \<open>The example directory\<close>

lemma home_resolve:
  assumes "dirs w = dirs home_world" "cwd w = cwd home_world"
  shows "resolve w (profiles_dir home_config) = Some profiles_loc" "is_dir w profiles_loc"
proof -
  have "resolve home_world (profiles_dir home_config) = Some profiles_loc"
    by (simp add: resolve_def home_config_def home_world_def start_of_def components_def
        is_dir_def step_def path_ok_def is_scalar_def endswith_def profiles_loc_def ak_loc_def
        str_of_def)
  then show "resolve w (profiles_dir home_config) = Some profiles_loc"
    using resolve_cong [OF assms] by simp
  show "is_dir w profiles_loc"
    by (simp add: is_dir_def assms(1) home_world_def)
qed

lemma home_profiles_dir: "profiles_dir home_config \<noteq> []"
  by (simp add: home_config_def str_of_def)

lemma home_artifact:
  assumes "dirs w = dirs home_world" "cwd w = cwd home_world"
    and "SLASH \<notin> set name" "path_ok name"
    and "sfx = str_of ''.profile'' \<or> sfx = str_of ''.keys.gpg'' \<or> sfx = str_of ''.keys''"
  shows "resolve w (os_path_join (profiles_dir home_config) (name @ sfx))
     = Some (profiles_loc @ [name @ sfx])"
  using artifact_resolve [OF assms(3,4) home_profiles_dir assms(5), of w] home_resolve [OF assms(1,2)]
  by simp

lemma home_world_no_profiles: "list_profiles home_config home_world = Some []"
proof -
  from list_profiles_dir [OF home_resolve [of home_world]]
  obtain ps where ps: "list_profiles home_config home_world = Some ps"
    and m: "\<forall>n. n \<in> set ps \<longleftrightarrow>
      (profiles_loc @ [n @ str_of ''.profile''] |\<in>| fmdom (files home_world)
       \<or> profiles_loc @ [n @ str_of ''.profile''] |\<in>| dirs home_world)"
    by auto
  have "n \<notin> set ps" for n
    using m by (simp add: home_world_def profiles_loc_def ak_loc_def)
  then have "ps = []" by (cases ps) auto
  with ps show ?thesis by simp
qed

subsection \<open>Names that lead out of the profiles directory\<close>

lemma join_dotdot_eq:
  "os_path_join a (str_of ''../'' @ b) = os_path_join a (str_of ''..'') @ SLASH # b"
  by (simp add: os_path_join_def str_of_def)

lemma resolve_dotdot:
  assumes "SLASH \<notin> set b" "2 < length b" "path_ok b" "a \<noteq> []"
  shows "resolve w (os_path_join a (str_of ''../'' @ b))
     = (case resolve w a of None \<Rightarrow> None
        | Some dl \<Rightarrow> if is_dir w dl \<and> is_dir w (butlast dl) then Some (butlast dl @ [b]) else None)"
proof -
  let ?X = "os_path_join a (str_of ''..'')"
  have dd: "SLASH \<notin> set (str_of ''..'')" "str_of ''..'' \<noteq> []" "path_ok (str_of ''..'')"
    "\<not> startswith (str_of ''..'') [SLASH]"
    by (simp_all add: str_of_def path_ok_def is_scalar_def)
  have bne: "b \<noteq> []" using assms(2) by auto
  have X: "?X \<noteq> []" using dd(2) by (rule join_not_Nil)
  have cX: "components ?X = components a @ [str_of ''..'']"
    using dd(1,2) by (rule components_join)
  have c: "components (?X @ SLASH # b) = components a @ [str_of ''..'', b]"
    using assms(1) bne by (simp add: components_append_sep cX components_single)
  have s: "start_of w (?X @ SLASH # b) = start_of w a"
    using start_of_join [OF dd(4) assms(4), of w] X
    by (cases ?X) (simp_all add: start_of_def)
  have ok: "path_ok (?X @ SLASH # b) = path_ok a"
    using assms(3) dd(3) by (simp add: path_ok_join [OF dd(4)])
  have lb: "last b \<noteq> SLASH"
    using assms(1) bne by (metis last_in_set)
  have nt: "\<not> endswith (?X @ SLASH # b) [SLASH]"
    using bne lb by (simp add: endswith_single)
  have st: "step l (str_of ''..'') = butlast l" "step l b = l @ [b]" for l
    using long_name [OF assms(2)] by (simp_all add: step_def str_of_def)
  show ?thesis
  proof (cases "path_ok a")
    case False
    then show ?thesis
      unfolding join_dotdot_eq using assms(4) ok by (simp add: resolve_def)
  next
    case True
    show ?thesis
    proof (cases "walk w (start_of w a) (components a)")
      case None
      then show ?thesis
        unfolding join_dotdot_eq using True assms(4) ok
        by (simp add: resolve_def c s walk_append)
    next
      case (Some l)
      then show ?thesis
        unfolding join_dotdot_eq using True assms(4) ok nt
        by (simp add: resolve_def c s walk_append st)
    qed
  qed
qed

lemma resolve_absolute:
  assumes "SLASH \<notin> set b" "2 < length b" "path_ok b"
  shows "resolve w (os_path_join a (SLASH # b)) = Some [b]"
proof -
  have bne: "b \<noteq> []" using assms(2) by auto
  have lb: "last b \<noteq> SLASH"
    using assms(1) bne by (metis last_in_set)
  have c: "components (SLASH # b) = [b]"
    using components_append_sep [of "[]" b] assms(1) bne by (simp add: components_single)
  have st: "step [] b = [b]"
    using long_name [OF assms(2)] by (simp add: step_def)
  show ?thesis
    using assms(3) bne lb
    by (simp add: os_path_join_def resolve_def c start_of_def st is_dir_def endswith_single
        path_ok_def is_scalar_def)
qed

subsection \<open>Creating and deleting\<close>

lemma write_profile_empty:
  "write_profile cfg name [] w =
     (case open_w w (profile_path cfg name) of
        None \<Rightarrow> (False, w)
      | Some l \<Rightarrow> (True, w\<lparr>files := fmupd l [] (files w)\<rparr>))"
  by (simp add: write_profile_def split: option.split)

lemma create_profile_unlisted:
  assumes "list_profiles cfg w = Some ps" "name \<notin> set ps"
  shows "create_profile cfg (Some (fmupd (str_of ''name'') name fmempty)) w
     = (case open_w w (profile_path cfg name) of
          None \<Rightarrow> ((Error ''Failed to create profile'', 500), w)
        | Some l \<Rightarrow>
            ((Message ''Profile created successfully'', 200), w\<lparr>files := fmupd l [] (files w)\<rparr>))"
  using assms by (simp add: create_profile_def write_profile_empty split: option.split)

lemma unlink_existing_dom:
  "p |\<in>| fmdom (files (snd (unlink_existing ps w))) \<Longrightarrow> p |\<in>| fmdom (files w)"
  by (induction ps w rule: unlink_existing.induct) (auto split: if_splits option.splits)

lemma unlink_existing_frame:
  "dirs (snd (unlink_existing ps w)) = dirs w \<and> cwd (snd (unlink_existing ps w)) = cwd w
   \<and> calls (snd (unlink_existing ps w)) = calls w"
  by (induction ps w rule: unlink_existing.induct) (auto split: if_splits option.splits)

lemma unlink_existing_head:
  assumes "resolve w p = Some l" "l |\<in>| fmdom (files w)" "\<not> is_dir w l"
  shows "l |\<notin>| fmdom (files (snd (unlink_existing (p # ps) w)))"
proof
  assume "l |\<in>| fmdom (files (snd (unlink_existing (p # ps) w)))"
  with assms have "l |\<in>| fmdom (files (snd (unlink_existing ps (w\<lparr>files := fmdrop l (files w)\<rparr>))))"
    by (simp add: os_path_exists_def)
  then have "l |\<in>| fmdom (files (w\<lparr>files := fmdrop l (files w)\<rparr>))"
    by (rule unlink_existing_dom)
  then show False by simp
qed

lemma delete_profile_snd:
  "name \<noteq> str_of ''default'' \<Longrightarrow>
   snd (delete_profile cfg name w)
     = snd (unlink_existing [profile_path cfg name, profile_keys_path cfg name,
                             profile_keys_plain_path cfg name] w)"
  by (simp add: delete_profile_def split: prod.splits del: unlink_existing.simps)

lemma delete_profile_status:
  "name \<noteq> str_of ''default'' \<Longrightarrow> snd (fst (delete_profile cfg name w)) \<noteq> 400"
  by (simp add: delete_profile_def split: prod.splits del: unlink_existing.simps)

lemma inside_entry: "inside dl (dl @ [b])"
  by (simp add: inside_def)

lemma not_inside_sibling: "dl \<noteq> [] \<Longrightarrow> \<not> inside dl (butlast dl @ [b])"
  by (simp add: inside_def)

lemma not_inside_top: "dl \<noteq> [] \<Longrightarrow> \<not> inside dl [b]"
  by (cases dl) (simp_all add: inside_def)

lemma escape_path:
  "profile_path home_config (str_of ''../x'') = str_of ''/h/.config/ak/profiles/../x.profile''"
  by (simp add: profile_path_def home_config_def os_path_join_def endswith_def str_of_def)

lemma nodir_open:
  "open_w home_world (profile_path home_config (str_of ''nodir/x'')) = None"
  by (simp add: open_w_def resolve_def profile_path_def home_config_def home_world_def
      os_path_join_def start_of_def components_def is_dir_def step_def path_ok_def is_scalar_def
      endswith_def profiles_loc_def ak_loc_def str_of_def)

text \<open>
  C9, as stated, fails for a name that begins with \<open>/\<close>: \<open>os.path.join\<close> then drops the
  profiles directory, and the path is the name and the suffix alone.
\<close>

theorem profile_path_absolute_counterexample:
  "profile_path home_config (str_of ''/x'') = str_of ''/x.profile''
   \<and> profile_path home_config (str_of ''/x'')
       \<noteq> profiles_dir home_config @ str_of ''/x'' @ str_of ''.profile''
   \<and> profile_path home_config (str_of ''/x'')
       \<noteq> profiles_dir home_config @ [SLASH] @ str_of ''/x'' @ str_of ''.profile''"
  by (simp add: profile_path_def home_config_def os_path_join_def str_of_def)

text \<open>
  C9, amended: no name is validated or sanitised. For a configuration built by
  \<open>AKConfig.__init__\<close>, \<open>profile_path name\<close> is the profiles directory, a \<open>/\<close>, the name
  and \<open>.profile\<close> when the name does not begin with \<open>/\<close>, and the name and \<open>.profile\<close>
  alone when it does. For a name that is not listed yet, \<open>create_profile\<close> answers 200
  and leaves an empty file where that path leads, for every path that can be opened for
  writing; when it cannot (a directory on the way is missing, or the path names a
  directory) the answer is 500 and nothing is created. In particular the names \<open>../n\<close>
  and \<open>/n\<close> lead to the entry \<open>n.profile\<close> of the parent of the profiles directory and
  of the root directory, both outside the profiles directory. \<open>delete_profile\<close> checks
  nothing but that the name is not \<open>default\<close>, and removes the name list that the path
  leads to. Its names are one segment of the URL path, without \<open>/\<close>; for a name without
  \<open>/\<close> the three paths of a profile lead to entries of the profiles directory itself.
\<close>

theorem profile_path_unvalidated:
  assumes "AKConfig_init env gpg w0 = Some (cfg, w1)"
  shows "profile_path cfg name =
           (if startswith name [SLASH] then name @ str_of ''.profile''
            else profiles_dir cfg @ [SLASH] @ name @ str_of ''.profile'')
    \<and> (\<forall>ps. list_profiles cfg w = Some ps \<and> name \<notin> set ps \<longrightarrow>
         create_profile cfg (Some (fmupd (str_of ''name'') name fmempty)) w
           = (case open_w w (profile_path cfg name) of
                None \<Rightarrow> ((Error ''Failed to create profile'', 500), w)
              | Some l \<Rightarrow>
                  ((Message ''Profile created successfully'', 200),
                   w\<lparr>files := fmupd l [] (files w)\<rparr>)))
    \<and> (\<forall>n dl. SLASH \<notin> set n \<and> path_ok n \<and> resolve w (profiles_dir cfg) = Some dl
           \<and> dl \<noteq> [] \<and> is_dir w dl \<and> is_dir w (butlast dl)
           \<and> \<not> is_dir w (butlast dl @ [n @ str_of ''.profile'']) \<longrightarrow>
         open_w w (profile_path cfg (str_of ''../'' @ n))
           = Some (butlast dl @ [n @ str_of ''.profile''])
         \<and> \<not> inside dl (butlast dl @ [n @ str_of ''.profile'']))
    \<and> (\<forall>n dl. SLASH \<notin> set n \<and> path_ok n \<and> resolve w (profiles_dir cfg) = Some dl
           \<and> dl \<noteq> [] \<and> \<not> is_dir w [n @ str_of ''.profile''] \<longrightarrow>
         open_w w (profile_path cfg (SLASH # n)) = Some [n @ str_of ''.profile'']
         \<and> \<not> inside dl [n @ str_of ''.profile''])
    \<and> (\<forall>l. name \<noteq> str_of ''default'' \<and> resolve w (profile_path cfg name) = Some l
           \<and> l |\<in>| fmdom (files w) \<and> \<not> is_dir w l \<longrightarrow>
         snd (fst (delete_profile cfg name w)) \<noteq> 400
         \<and> l |\<notin>| fmdom (files (snd (delete_profile cfg name w))))
    \<and> (SLASH \<notin> set name \<longrightarrow>
         (\<forall>p l. p \<in> {profile_path cfg name, profile_keys_path cfg name,
                      profile_keys_plain_path cfg name}
                \<and> resolve w p = Some l \<longrightarrow>
            (\<exists>dl. resolve w (profiles_dir cfg) = Some dl \<and> is_dir w dl \<and> l = dl @ [last l]
                  \<and> inside dl l)))"
proof (intro conjI allI impI)
  show "profile_path cfg name =
           (if startswith name [SLASH] then name @ str_of ''.profile''
            else profiles_dir cfg @ [SLASH] @ name @ str_of ''.profile'')"
    using init_profiles_dir [OF assms] by (intro profile_path_eq) simp_all
next
  fix ps
  assume "list_profiles cfg w = Some ps \<and> name \<notin> set ps"
  then show "create_profile cfg (Some (fmupd (str_of ''name'') name fmempty)) w
           = (case open_w w (profile_path cfg name) of
                None \<Rightarrow> ((Error ''Failed to create profile'', 500), w)
              | Some l \<Rightarrow>
                  ((Message ''Profile created successfully'', 200),
                   w\<lparr>files := fmupd l [] (files w)\<rparr>))"
    using create_profile_unlisted [of cfg w ps name] by blast
next
  fix n dl
  assume a: "SLASH \<notin> set n \<and> path_ok n \<and> resolve w (profiles_dir cfg) = Some dl
           \<and> dl \<noteq> [] \<and> is_dir w dl \<and> is_dir w (butlast dl)
           \<and> \<not> is_dir w (butlast dl @ [n @ str_of ''.profile''])"
  note s = suffix_facts [of "str_of ''.profile''"]
  have "resolve w (os_path_join (profiles_dir cfg) (str_of ''../'' @ n @ str_of ''.profile''))
      = Some (butlast dl @ [n @ str_of ''.profile''])"
    using a s init_profiles_dir [OF assms]
    by (subst resolve_dotdot) simp_all
  then show "open_w w (profile_path cfg (str_of ''../'' @ n))
           = Some (butlast dl @ [n @ str_of ''.profile''])"
    using a by (simp add: open_w_def profile_path_def)
  show "\<not> inside dl (butlast dl @ [n @ str_of ''.profile''])"
    using a by (intro not_inside_sibling) simp
next
  fix n dl
  assume a: "SLASH \<notin> set n \<and> path_ok n \<and> resolve w (profiles_dir cfg) = Some dl
           \<and> dl \<noteq> [] \<and> \<not> is_dir w [n @ str_of ''.profile'']"
  note s = suffix_facts [of "str_of ''.profile''"]
  have "resolve w (os_path_join (profiles_dir cfg) (SLASH # n @ str_of ''.profile''))
      = Some [n @ str_of ''.profile'']"
    using a s by (intro resolve_absolute) simp_all
  then show "open_w w (profile_path cfg (SLASH # n)) = Some [n @ str_of ''.profile'']"
    using a by (simp add: open_w_def profile_path_def)
  show "\<not> inside dl [n @ str_of ''.profile'']"
    using a by (intro not_inside_top) simp
next
  fix l
  assume a: "name \<noteq> str_of ''default'' \<and> resolve w (profile_path cfg name) = Some l
           \<and> l |\<in>| fmdom (files w) \<and> \<not> is_dir w l"
  then show "snd (fst (delete_profile cfg name w)) \<noteq> 400"
    by (intro delete_profile_status) simp
  from a have "l |\<notin>| fmdom (files (snd (unlink_existing
      [profile_path cfg name, profile_keys_path cfg name, profile_keys_plain_path cfg name] w)))"
    by (intro unlink_existing_head) simp_all
  then show "l |\<notin>| fmdom (files (snd (delete_profile cfg name w)))"
    using a by (simp add: delete_profile_snd del: unlink_existing.simps)
next
  fix p l
  assume n: "SLASH \<notin> set name"
    and a: "p \<in> {profile_path cfg name, profile_keys_path cfg name,
                      profile_keys_plain_path cfg name}
                \<and> resolve w p = Some l"
  then obtain sfx where
    sfx: "sfx = str_of ''.profile'' \<or> sfx = str_of ''.keys.gpg'' \<or> sfx = str_of ''.keys''"
    and p: "p = os_path_join (profiles_dir cfg) (name @ sfx)"
    by (auto simp: profile_path_def profile_keys_path_def profile_keys_plain_path_def)
  have ok: "path_ok name"
    using a artifact_unresolved [OF _ sfx, of name w cfg] p by auto
  have d: "profiles_dir cfg \<noteq> []"
    using init_profiles_dir [OF assms] by simp
  from a obtain dl where "resolve w (profiles_dir cfg) = Some dl" "is_dir w dl"
    "l = dl @ [name @ sfx]"
    unfolding p artifact_resolve [OF n ok d sfx]
    by (auto split: option.splits if_splits)
  then show "\<exists>dl. resolve w (profiles_dir cfg) = Some dl \<and> is_dir w dl \<and> l = dl @ [last l]
                  \<and> inside dl l"
    by (simp add: inside_entry)
qed

theorem profile_path_unvalidated_witness:
  "AKConfig_init home_env toy_gpg empty_world = Some (home_config, home_world)
   \<and> profile_path home_config (str_of ''../x'') = str_of ''/h/.config/ak/profiles/../x.profile''
   \<and> create_profile home_config (Some (fmupd (str_of ''name'') (str_of ''../x'') fmempty)) home_world
       = ((Message ''Profile created successfully'', 200),
          home_world\<lparr>files := fmupd (ak_loc @ [str_of ''x.profile'']) [] fmempty\<rparr>)
   \<and> \<not> inside profiles_loc (ak_loc @ [str_of ''x.profile''])
   \<and> open_w home_world (profile_path home_config (str_of ''/x'')) = Some [str_of ''x.profile'']
   \<and> \<not> inside profiles_loc [str_of ''x.profile'']
   \<and> create_profile home_config (Some (fmupd (str_of ''name'') (str_of ''nodir/x'') fmempty))
         home_world
       = ((Error ''Failed to create profile'', 500), home_world)
   \<and> profiles_loc @ [str_of ''x.profile''] |\<notin>|
       fmdom (files (snd (delete_profile home_config (str_of ''x'')
         (home_world\<lparr>files := fmupd (profiles_loc @ [str_of ''x.profile'']) [] fmempty\<rparr>))))
   \<and> inside profiles_loc (profiles_loc @ [str_of ''x.profile''])"
proof -
  let ?w = "home_world\<lparr>files := fmupd (profiles_loc @ [str_of ''x.profile'']) [] fmempty\<rparr>"
  note t = profile_path_unvalidated [OF home_init]
  note r = home_resolve [of home_world, simplified]
  have x: "SLASH \<notin> set (str_of ''x'')" "path_ok (str_of ''x'')"
    "str_of ''x'' \<noteq> str_of ''default''"
    "str_of ''x'' @ str_of ''.profile'' = str_of ''x.profile''"
    "str_of ''../'' @ str_of ''x'' = str_of ''../x''"
    "SLASH # str_of ''x'' = str_of ''/x''"
    by (simp_all add: str_of_def path_ok_def is_scalar_def)
  have b: "butlast profiles_loc = ak_loc" "profiles_loc \<noteq> []"
    by (simp_all add: profiles_loc_def)
  have d: "is_dir home_world ak_loc" "\<not> is_dir home_world (ak_loc @ [str_of ''x.profile''])"
    "\<not> is_dir home_world [str_of ''x.profile'']"
    by (simp_all add: is_dir_def home_world_def ak_loc_def profiles_loc_def str_of_def)
  have o: "open_w home_world (profile_path home_config (str_of ''../x''))
        = Some (ak_loc @ [str_of ''x.profile''])
      \<and> \<not> inside profiles_loc (ak_loc @ [str_of ''x.profile''])"
    using t [of "str_of ''x''" home_world, THEN conjunct2, THEN conjunct2, THEN conjunct1,
        rule_format, of "str_of ''x''" profiles_loc] x r b d
    by simp
  have a: "open_w home_world (profile_path home_config (str_of ''/x'')) = Some [str_of ''x.profile'']
      \<and> \<not> inside profiles_loc [str_of ''x.profile'']"
    using t [of "str_of ''x''" home_world, THEN conjunct2, THEN conjunct2, THEN conjunct2,
        THEN conjunct1, rule_format, of "str_of ''x''" profiles_loc] x r b d
    by simp
  have files: "files home_world = fmempty"
    by (simp add: home_world_def)
  have c: "create_profile home_config (Some (fmupd (str_of ''name'') (str_of ''../x'') fmempty))
        home_world
       = ((Message ''Profile created successfully'', 200),
          home_world\<lparr>files := fmupd (ak_loc @ [str_of ''x.profile'']) [] fmempty\<rparr>)"
    using t [of "str_of ''../x''" home_world, THEN conjunct2, THEN conjunct1, rule_format, of "[]"]
      home_world_no_profiles o files
    by simp
  have f: "create_profile home_config (Some (fmupd (str_of ''name'') (str_of ''nodir/x'') fmempty))
         home_world
       = ((Error ''Failed to create profile'', 500), home_world)"
    using t [of "str_of ''nodir/x''" home_world, THEN conjunct2, THEN conjunct1, rule_format,
        of "[]"] home_world_no_profiles nodir_open
    by simp
  have rx: "resolve ?w (profile_path home_config (str_of ''x''))
      = Some (profiles_loc @ [str_of ''x.profile''])"
    using home_artifact [of ?w "str_of ''x''" "str_of ''.profile''"] x
    by (simp add: profile_path_def)
  have nd: "\<not> is_dir ?w (profiles_loc @ [str_of ''x.profile''])"
    by (simp add: is_dir_def home_world_def ak_loc_def profiles_loc_def str_of_def)
  have del: "profiles_loc @ [str_of ''x.profile''] |\<notin>|
       fmdom (files (snd (delete_profile home_config (str_of ''x'') ?w)))"
    using t [of "str_of ''x''" ?w, THEN conjunct2, THEN conjunct2, THEN conjunct2, THEN conjunct2,
        THEN conjunct1, rule_format, of "profiles_loc @ [str_of ''x.profile'']"] x rx nd
    by simp
  have "\<exists>dl. resolve ?w (profiles_dir home_config) = Some dl \<and> is_dir ?w dl
      \<and> profiles_loc @ [str_of ''x.profile''] = dl @ [last (profiles_loc @ [str_of ''x.profile''])]
      \<and> inside dl (profiles_loc @ [str_of ''x.profile''])"
    using t [of "str_of ''x''" ?w, THEN conjunct2, THEN conjunct2, THEN conjunct2, THEN conjunct2,
        THEN conjunct2, rule_format, of "profile_path home_config (str_of ''x'')"
        "profiles_loc @ [str_of ''x.profile'']"] x rx
    by simp
  then have ins: "inside profiles_loc (profiles_loc @ [str_of ''x.profile''])"
    by auto
  show ?thesis
    using home_init escape_path o a c f del ins by simp
qed

section \<open>The default profile is ensured idempotently\<close>









section \<open>Loading keys reads and never writes\<close>

lemma os_path_exists_cong:
  assumes "files w = files w'" "dirs w = dirs w'" "cwd w = cwd w'"
  shows "os_path_exists w p = os_path_exists w' p"
  unfolding os_path_exists_def resolve_cong [OF assms(2,3)] is_dir_cong [OF assms(2)] assms(1)
  by (rule refl)

lemma file_at_cong:
  assumes "files w = files w'" "dirs w = dirs w'" "cwd w = cwd w'"
  shows "file_at w p = file_at w' p"
  unfolding file_at_def resolve_cong [OF assms(2,3)] assms(1)
  by (rule refl)

lemma decrypt_gpg_data_frame:
  "files (snd (decrypt_gpg_data cfg gpg path w)) = files w
   \<and> dirs (snd (decrypt_gpg_data cfg gpg path w)) = dirs w
   \<and> cwd (snd (decrypt_gpg_data cfg gpg path w)) = cwd w"
  by (simp add: decrypt_gpg_data_def run_gpg_decrypt_def)

lemma decrypt_gpg_data_cong:
  assumes "files w = files w'" "dirs w = dirs w'" "cwd w = cwd w'"
  shows "fst (decrypt_gpg_data cfg gpg path w) = fst (decrypt_gpg_data cfg gpg path w')"
  by (simp add: decrypt_gpg_data_def run_gpg_decrypt_def file_at_cong [OF assms])

lemma load_profile_keys_snd:
  "snd (load_profile_keys cfg gpg name w) =
     (if os_path_exists w (profile_keys_path cfg name)
      then snd (decrypt_gpg_data cfg gpg (profile_keys_path cfg name) w) else w)"
proof (cases "os_path_exists w (profile_keys_path cfg name)")
  case True
  obtain x v where x: "decrypt_gpg_data cfg gpg (profile_keys_path cfg name) w = (x, v)"
    by (cases "decrypt_gpg_data cfg gpg (profile_keys_path cfg name) w")
  show ?thesis using True x
    by (simp add: load_profile_keys_def Let_def split: option.split)
next
  case False
  then show ?thesis
    by (simp add: load_profile_keys_def Let_def split: option.split)
qed

lemma load_profile_keys_frame:
  "files (snd (load_profile_keys cfg gpg name w)) = files w
   \<and> dirs (snd (load_profile_keys cfg gpg name w)) = dirs w
   \<and> cwd (snd (load_profile_keys cfg gpg name w)) = cwd w"
  by (simp add: load_profile_keys_snd decrypt_gpg_data_frame)

lemma load_profile_keys_cong:
  assumes "files w = files w'" "dirs w = dirs w'" "cwd w = cwd w'"
  shows "fst (load_profile_keys cfg gpg name w) = fst (load_profile_keys cfg gpg name w')"
proof -
  let ?e = "profile_keys_path cfg name"
  have ex: "\<And>p. os_path_exists w p = os_path_exists w' p"
    using assms by (rule os_path_exists_cong)
  have d: "fst (decrypt_gpg_data cfg gpg ?e w) = fst (decrypt_gpg_data cfg gpg ?e w')"
    using assms by (rule decrypt_gpg_data_cong)
  have f: "files (snd (decrypt_gpg_data cfg gpg ?e w)) = files (snd (decrypt_gpg_data cfg gpg ?e w'))"
    "dirs (snd (decrypt_gpg_data cfg gpg ?e w)) = dirs (snd (decrypt_gpg_data cfg gpg ?e w'))"
    "cwd (snd (decrypt_gpg_data cfg gpg ?e w)) = cwd (snd (decrypt_gpg_data cfg gpg ?e w'))"
    using assms by (simp_all add: decrypt_gpg_data_frame)
  obtain x v where x: "decrypt_gpg_data cfg gpg ?e w = (x, v)" by (cases "decrypt_gpg_data cfg gpg ?e w")
  obtain x' v' where x': "decrypt_gpg_data cfg gpg ?e w' = (x', v')" by (cases "decrypt_gpg_data cfg gpg ?e w'")
  from d f x x' have eq: "x = x'" "files v = files v'" "dirs v = dirs v'" "cwd v = cwd v'"
    by simp_all
  have ex2: "\<And>p. os_path_exists v p = os_path_exists v' p"
    using eq(2,3,4) by (rule os_path_exists_cong)
  have fa: "\<And>p. file_at w p = file_at w' p"
    using assms by (rule file_at_cong)
  have fa2: "\<And>p. file_at v p = file_at v' p"
    using eq(2,3,4) by (rule file_at_cong)
  show ?thesis
    using eq(1) ex ex2 fa fa2 x x'
    by (simp add: load_profile_keys_def Let_def split: option.splits)
qed

lemma read_profile_cong:
  assumes "files w = files w'" "dirs w = dirs w'" "cwd w = cwd w'"
  shows "read_profile cfg name w = read_profile cfg name w'"
  unfolding read_profile_def os_path_exists_cong [OF assms] file_at_cong [OF assms]
  by (rule refl)

lemma delete_profile_key_missing:
  assumes "key_name |\<notin>| fmdom (fst (load_profile_keys cfg gpg profile_name w))"
  shows "delete_profile_key cfg gpg profile_name key_name w
    = ((Error ''Key not found'', 404), snd (load_profile_keys cfg gpg profile_name w))"
proof -
  obtain keys w1 where l: "load_profile_keys cfg gpg profile_name w = (keys, w1)"
    by (cases "load_profile_keys cfg gpg profile_name w")
  with assms have "key_name |\<notin>| fmdom keys" by simp
  with l show ?thesis
    by (simp add: delete_profile_key_def)
qed

subsection \<open>The example profile \<open>p\<close>\<close>

lemma p_name: "SLASH \<notin> set (str_of ''p'')" "path_ok (str_of ''p'')"
  by (simp_all add: str_of_def path_ok_def is_scalar_def)

lemma p_keys_loc:
  assumes "dirs w = dirs home_world" "cwd w = cwd home_world"
  shows "resolve w (profile_keys_path home_config (str_of ''p''))
     = Some (profiles_loc @ [str_of ''p.keys.gpg''])"
proof -
  have "str_of ''p'' @ str_of ''.keys.gpg'' = str_of ''p.keys.gpg''"
    by (simp add: str_of_def)
  with home_artifact [OF assms p_name, of "str_of ''.keys.gpg''"] show ?thesis
    by (simp add: profile_keys_path_def)
qed

lemma p_plain_loc:
  assumes "dirs w = dirs home_world" "cwd w = cwd home_world"
  shows "resolve w (profile_keys_plain_path home_config (str_of ''p''))
     = Some (profiles_loc @ [str_of ''p.keys''])"
proof -
  have "str_of ''p'' @ str_of ''.keys'' = str_of ''p.keys''"
    by (simp add: str_of_def)
  with home_artifact [OF assms p_name, of "str_of ''.keys''"] show ?thesis
    by (simp add: profile_keys_plain_path_def)
qed

lemma p_profile_loc:
  assumes "dirs w = dirs home_world" "cwd w = cwd home_world"
  shows "resolve w (profile_path home_config (str_of ''p''))
     = Some (profiles_loc @ [str_of ''p.profile''])"
proof -
  have "str_of ''p'' @ str_of ''.profile'' = str_of ''p.profile''"
    by (simp add: str_of_def)
  with home_artifact [OF assms p_name, of "str_of ''.profile''"] show ?thesis
    by (simp add: profile_path_def)
qed

lemma p_locs_distinct:
  "profiles_loc @ [str_of ''p.keys.gpg''] \<noteq> profiles_loc @ [str_of ''p.keys'']"
  "profiles_loc @ [str_of ''p.profile''] \<noteq> profiles_loc @ [str_of ''p.keys'']"
  "profiles_loc @ [str_of ''p.profile''] \<noteq> profiles_loc @ [str_of ''p.keys.gpg'']"
  by (simp_all add: str_of_def)

lemma p_locs_not_dirs:
  "profiles_loc @ [str_of ''p.keys.gpg''] |\<notin>| dirs home_world"
  "profiles_loc @ [str_of ''p.keys''] |\<notin>| dirs home_world"
  "profiles_loc @ [str_of ''p.profile''] |\<notin>| dirs home_world"
  by (simp_all add: home_world_def profiles_loc_def ak_loc_def)

lemma plain_world_fs: "dirs plain_world = dirs home_world" "cwd plain_world = cwd home_world"
  by (simp_all add: plain_world_def)

lemma plain_world_no_gpg:
  "\<not> os_path_exists plain_world (profile_keys_path home_config (str_of ''p''))"
  unfolding os_path_exists_def p_keys_loc [OF plain_world_fs]
  using p_locs_distinct p_locs_not_dirs
  by (simp add: is_dir_def plain_world_def profiles_loc_def)

lemma plain_world_load:
  "fst (load_profile_keys home_config toy_gpg (str_of ''p'') plain_world)
     = fmupd (str_of ''K'') (str_of ''v'') fmempty"
proof -
  have p: "os_path_exists plain_world (profile_keys_plain_path home_config (str_of ''p''))"
    unfolding os_path_exists_def p_plain_loc [OF plain_world_fs]
    by (simp add: plain_world_def)
  have l: "file_at plain_world (profile_keys_plain_path home_config (str_of ''p''))
      = Some (str_of ''K=dg=='' @ [LF])"
    unfolding file_at_def p_plain_loc [OF plain_world_fs]
    by (simp add: plain_world_def)
  have n: "str_of ''K=dg=='' @ [LF] \<noteq> []" by simp
  show ?thesis
    using plain_world_no_gpg p l n
    by (simp add: load_profile_keys_def not_data_def parse_data_def
        universal_newlines_K decode_K_contents)
qed

section \<open>Deleting a key that is not there\<close>

text \<open>
  C6: when the key is absent from the mapping that \<open>load_profile_keys\<close> returns,
  \<open>delete_profile_key\<close> answers 404 with \<open>Key not found\<close> and writes nothing: the files
  and directories are the same afterwards, so the name list reads as before and the
  profile loads to the same mapping as before.
\<close>

theorem delete_missing_key_not_found:
  assumes "key_name |\<notin>| fmdom (fst (load_profile_keys cfg gpg profile_name w))"
  shows "fst (delete_profile_key cfg gpg profile_name key_name w) = (Error ''Key not found'', 404)
    \<and> files (snd (delete_profile_key cfg gpg profile_name key_name w)) = files w
    \<and> dirs (snd (delete_profile_key cfg gpg profile_name key_name w)) = dirs w
    \<and> cwd (snd (delete_profile_key cfg gpg profile_name key_name w)) = cwd w
    \<and> read_profile cfg profile_name (snd (delete_profile_key cfg gpg profile_name key_name w))
        = read_profile cfg profile_name w
    \<and> fst (load_profile_keys cfg gpg profile_name
             (snd (delete_profile_key cfg gpg profile_name key_name w)))
        = fst (load_profile_keys cfg gpg profile_name w)"
proof -
  let ?r = "delete_profile_key cfg gpg profile_name key_name w"
  note r = delete_profile_key_missing [OF assms]
  then have f: "files (snd ?r) = files w" "dirs (snd ?r) = dirs w" "cwd (snd ?r) = cwd w"
    by (simp_all add: load_profile_keys_frame)
  show ?thesis
    using r f read_profile_cong [OF f] load_profile_keys_cong [OF f] by simp
qed

theorem delete_missing_key_not_found_witness:
  "str_of ''NOPE'' |\<notin>| fmdom (fst (load_profile_keys home_config toy_gpg (str_of ''p'') plain_world))
   \<and> delete_profile_key home_config toy_gpg (str_of ''p'') (str_of ''NOPE'') plain_world
       = ((Error ''Key not found'', 404), plain_world)
   \<and> fst (load_profile_keys home_config toy_gpg (str_of ''p'')
            (snd (delete_profile_key home_config toy_gpg (str_of ''p'') (str_of ''NOPE'') plain_world)))
       = fmupd (str_of ''K'') (str_of ''v'') fmempty"
proof -
  have ne: "str_of ''NOPE'' \<noteq> str_of ''K''"
    by (simp add: str_of_def)
  have h: "str_of ''NOPE'' |\<notin>| fmdom (fst (load_profile_keys home_config toy_gpg (str_of ''p'') plain_world))"
    using ne by (simp add: plain_world_load)
  note t = delete_missing_key_not_found [OF h]
  note e = plain_world_no_gpg
  have s: "snd (delete_profile_key home_config toy_gpg (str_of ''p'') (str_of ''NOPE'') plain_world)
      = plain_world"
    using e by (simp add: delete_profile_key_missing [OF h] load_profile_keys_snd)
  have r: "delete_profile_key home_config toy_gpg (str_of ''p'') (str_of ''NOPE'') plain_world
       = ((Error ''Key not found'', 404), plain_world)"
    using t [THEN conjunct1] s by (simp add: prod_eq_iff)
  show ?thesis
    using h r t [THEN conjunct2, THEN conjunct2, THEN conjunct2, THEN conjunct2, THEN conjunct2]
    by (simp add: plain_world_load)
qed

section \<open>Saving with encryption leaves the plaintext file alone\<close>

lemma keys_paths_suffixed:
  "profile_keys_path cfg name = os_path_join (profiles_dir cfg) name @ str_of ''.keys.gpg''"
  "profile_keys_plain_path cfg name = os_path_join (profiles_dir cfg) name @ str_of ''.keys''"
  "profile_path cfg name = os_path_join (profiles_dir cfg) name @ str_of ''.profile''"
  using suffix_facts(4) [of "str_of ''.keys.gpg''"] suffix_facts(4) [of "str_of ''.keys''"]
    suffix_facts(4) [of "str_of ''.profile''"]
  by (simp_all add: profile_keys_path_def profile_keys_plain_path_def profile_path_def
      os_path_join_suffix del: startswith_single)

text \<open>
  The encrypted and the plaintext contents path of a profile lead to different entries
  of one directory, whatever the name is.
\<close>

lemma keys_locations_distinct:
  assumes "resolve w (profile_keys_path cfg name) = Some l"
  shows "\<exists>l'. resolve w (profile_keys_plain_path cfg name) = Some l' \<and> l' \<noteq> l"
proof -
  let ?x = "os_path_join (profiles_dir cfg) name"
  let ?t = "last (split_on SLASH ?x)"
  note g = suffix_facts [of "str_of ''.keys.gpg''"]
  note k = suffix_facts [of "str_of ''.keys''"]
  have r: "resolve w (?x @ str_of ''.keys.gpg'') = Some l"
    using assms by (simp only: keys_paths_suffixed)
  have "resolve w (?x @ str_of ''.keys'') = Some (butlast l @ [?t @ str_of ''.keys''])"
    using g(1,2,3) k(1,2,3) r by (intro resolve_suffixes [where ?s1.0 = "str_of ''.keys.gpg''"]) simp_all
  moreover have "butlast l @ [?t @ str_of ''.keys''] \<noteq> l"
  proof
    assume "butlast l @ [?t @ str_of ''.keys''] = l"
    then have "last l = ?t @ str_of ''.keys''"
      by (metis last_snoc)
    moreover have "l \<noteq> [] \<and> last l = ?t @ str_of ''.keys.gpg''"
      using g(1,2,3) r by (intro resolve_suffixed_last) simp_all
    ultimately have "str_of ''.keys'' = str_of ''.keys.gpg''"
      by simp
    then show False
      by (simp add: str_of_def)
  qed
  ultimately show ?thesis
    by (simp only: keys_paths_suffixed) blast
qed

lemma encrypt_gpg_data_success:
  assumes "encrypt_gpg_data cfg gpg data path w = (True, w1)"
  shows "\<exists>c b l. gpg_encrypt gpg (preset_passphrase cfg) data = Some c
    \<and> open_w w path = Some l
    \<and> w1 = w\<lparr>files := fmupd l c (files w), calls := calls w @ [GpgEncrypt b path]\<rparr>"
  using assms
  by (auto simp: encrypt_gpg_data_def run_gpg_encrypt_def split: if_splits option.splits)

lemma open_w_resolve: "open_w w p = Some l \<Longrightarrow> resolve w p = Some l \<and> \<not> is_dir w l"
  by (auto simp: open_w_def split: option.splits if_splits)

lemma plain_world_encrypt:
  "encrypt_gpg_data home_config toy_gpg (str_of ''K=dg=='' @ [LF])
      (profile_keys_path home_config (str_of ''p'')) plain_world
   = (True, plain_world\<lparr>files := fmupd (profiles_loc @ [str_of ''p.keys.gpg''])
                                  (71 # str_of ''K=dg=='' @ [LF]) (files plain_world),
                        calls := [GpgVersion,
                                  GpgEncrypt False (profile_keys_path home_config (str_of ''p''))]\<rparr>)"
proof -
  have o: "open_w plain_world (profile_keys_path home_config (str_of ''p''))
      = Some (profiles_loc @ [str_of ''p.keys.gpg''])"
    unfolding open_w_def p_keys_loc [OF plain_world_fs]
    using p_locs_not_dirs by (simp add: is_dir_def plain_world_def)
  then have ok: "path_ok (profile_keys_path home_config (str_of ''p''))"
    by (auto simp: open_w_def resolve_def split: if_splits)
  have c: "calls plain_world = [GpgVersion]"
    by (simp add: plain_world_def home_world_def)
  have g: "gpg_available home_config \<and> \<not> force_plain home_config \<and> preset_passphrase home_config = []"
    by (simp add: home_config_def)
  show ?thesis
    using o ok c g encodable_K_data
    by (simp add: encrypt_gpg_data_def run_gpg_encrypt_def toy_gpg_def)
qed

text \<open>
  C5: when the encryption step of \<open>save_profile_keys\<close> succeeds, the call returns
  \<open>True\<close> with the state that \<open>encrypt_gpg_data\<close> left: the encrypted contents file
  holds what \<open>gpg\<close> wrote and every other file, the plaintext contents file of the
  profile among them, is exactly as before. The plaintext contents path leads to another
  file than the encrypted one, and that file is neither written nor created nor removed.
\<close>

theorem encrypted_save_leaves_plaintext:
  assumes "encode_contents keys = Some data"
    and "encrypt_gpg_data cfg gpg data (profile_keys_path cfg name) w = (True, w1)"
  shows "save_profile_keys cfg gpg name keys w = (True, w1)
    \<and> (\<exists>c l. gpg_encrypt gpg (preset_passphrase cfg) data = Some c
           \<and> open_w w (profile_keys_path cfg name) = Some l
           \<and> files w1 = fmupd l c (files w)
           \<and> resolve w (profile_keys_plain_path cfg name) \<noteq> Some l)
    \<and> file_at w1 (profile_keys_plain_path cfg name)
        = file_at w (profile_keys_plain_path cfg name)
    \<and> os_path_exists w1 (profile_keys_plain_path cfg name)
        = os_path_exists w (profile_keys_plain_path cfg name)
    \<and> (\<forall>l. resolve w (profile_keys_path cfg name) \<noteq> Some l \<longrightarrow>
          fmlookup (files w1) l = fmlookup (files w) l)
    \<and> dirs w1 = dirs w \<and> cwd w1 = cwd w"
proof -
  from encrypt_gpg_data_success [OF assms(2)] obtain c b l where
    c: "gpg_encrypt gpg (preset_passphrase cfg) data = Some c"
    and o: "open_w w (profile_keys_path cfg name) = Some l"
    and w1: "w1 = w\<lparr>files := fmupd l c (files w),
                    calls := calls w @ [GpgEncrypt b (profile_keys_path cfg name)]\<rparr>"
    by blast
  have s: "save_profile_keys cfg gpg name keys w = (True, w1)"
    using assms by (simp add: save_profile_keys_def)
  from open_w_resolve [OF o] have r: "resolve w (profile_keys_path cfg name) = Some l"
    by simp
  from keys_locations_distinct [OF r] obtain l' where
    l': "resolve w (profile_keys_plain_path cfg name) = Some l'" "l' \<noteq> l"
    by blast
  have f: "dirs w1 = dirs w" "cwd w1 = cwd w" "files w1 = fmupd l c (files w)"
    by (simp_all add: w1)
  have r1: "resolve w1 (profile_keys_plain_path cfg name) = Some l'"
    using resolve_cong [OF f(1,2)] l'(1) by simp
  have fa: "file_at w1 (profile_keys_plain_path cfg name)
        = file_at w (profile_keys_plain_path cfg name)"
    using l'(2) by (simp add: file_at_def r1 l'(1) f(3))
  have ex: "os_path_exists w1 (profile_keys_plain_path cfg name)
        = os_path_exists w (profile_keys_plain_path cfg name)"
    using l'(2) by (simp add: os_path_exists_def r1 l'(1) f(3) is_dir_cong [OF f(1)])
  have others: "\<forall>l. resolve w (profile_keys_path cfg name) \<noteq> Some l \<longrightarrow>
          fmlookup (files w1) l = fmlookup (files w) l"
    using r by (simp add: f(3))
  have "\<exists>c l. gpg_encrypt gpg (preset_passphrase cfg) data = Some c
           \<and> open_w w (profile_keys_path cfg name) = Some l
           \<and> files w1 = fmupd l c (files w)
           \<and> resolve w (profile_keys_plain_path cfg name) \<noteq> Some l"
    using c o f(3) l' by auto
  then show ?thesis
    using s fa ex others f(1,2) by blast
qed

theorem encrypted_save_leaves_plaintext_witness:
  "encode_contents (fmupd (str_of ''K'') (str_of ''v'') fmempty) = Some (str_of ''K=dg=='' @ [LF])
   \<and> fst (encrypt_gpg_data home_config toy_gpg (str_of ''K=dg=='' @ [LF])
            (profile_keys_path home_config (str_of ''p'')) plain_world)
   \<and> fst (save_profile_keys home_config toy_gpg (str_of ''p'')
            (fmupd (str_of ''K'') (str_of ''v'') fmempty) plain_world)
   \<and> file_at (snd (save_profile_keys home_config toy_gpg (str_of ''p'')
                     (fmupd (str_of ''K'') (str_of ''v'') fmempty) plain_world))
        (profile_keys_plain_path home_config (str_of ''p''))
       = Some (str_of ''K=dg=='' @ [LF])
   \<and> fmlookup (files (snd (save_profile_keys home_config toy_gpg (str_of ''p'')
                     (fmupd (str_of ''K'') (str_of ''v'') fmempty) plain_world)))
        (profiles_loc @ [str_of ''p.keys''])
       = Some (str_of ''K=dg=='' @ [LF])"
proof -
  note t = encrypted_save_leaves_plaintext [OF encode_K_contents plain_world_encrypt]
  have l: "file_at plain_world (profile_keys_plain_path home_config (str_of ''p''))
      = Some (str_of ''K=dg=='' @ [LF])"
    unfolding file_at_def p_plain_loc [OF plain_world_fs]
    by (simp add: plain_world_def)
  have l2: "fmlookup (files plain_world) (profiles_loc @ [str_of ''p.keys''])
      = Some (str_of ''K=dg=='' @ [LF])"
    by (simp add: plain_world_def)
  have n: "resolve plain_world (profile_keys_path home_config (str_of ''p''))
      \<noteq> Some (profiles_loc @ [str_of ''p.keys''])"
    unfolding p_keys_loc [OF plain_world_fs] using p_locs_distinct by simp
  note t5 = t [THEN conjunct2, THEN conjunct2, THEN conjunct2, THEN conjunct2, THEN conjunct1,
      rule_format, OF n]
  show ?thesis
    using t [THEN conjunct1] t [THEN conjunct2, THEN conjunct2, THEN conjunct1] l l2 t5
    by (simp add: encode_K_contents plain_world_encrypt)
qed

section \<open>Resolution order of loading\<close>

lemma stale_world_fs: "dirs stale_world = dirs home_world" "cwd stale_world = cwd home_world"
  by (simp_all add: stale_world_def)

lemma home_config_gpg:
  "gpg_available home_config \<and> \<not> force_plain home_config \<and> preset_passphrase home_config = []"
  by (simp add: home_config_def)

lemma p_keys_path_ok: "path_ok (profile_keys_path home_config (str_of ''p''))"
  using p_keys_loc [of home_world] by (auto simp: resolve_def split: if_splits)

lemma stale_world_decrypt:
  "decrypt_gpg_data home_config toy_gpg (profile_keys_path home_config (str_of ''p'')) stale_world
   = (Some [], stale_world\<lparr>calls := [GpgVersion,
        GpgDecrypt False (profile_keys_path home_config (str_of ''p''))]\<rparr>)"
proof -
  have c: "calls stale_world = [GpgVersion]"
    by (simp add: stale_world_def home_world_def)
  have l: "file_at stale_world (profile_keys_path home_config (str_of ''p'')) = Some [71]"
    unfolding file_at_def p_keys_loc [OF stale_world_fs]
    by (simp add: stale_world_def)
  show ?thesis
    using c l home_config_gpg p_keys_path_ok
    by (simp add: decrypt_gpg_data_def run_gpg_decrypt_def toy_gpg_def)
qed

lemma stale_world_exists:
  "os_path_exists stale_world (profile_keys_path home_config (str_of ''p''))"
  unfolding os_path_exists_def p_keys_loc [OF stale_world_fs]
  by (simp add: stale_world_def)

lemma stale_world_load_result:
  "os_path_exists stale_world (profile_keys_path home_config (str_of ''p''))
   \<and> fst (decrypt_gpg_data home_config toy_gpg (profile_keys_path home_config (str_of ''p''))
            stale_world) = Some []
   \<and> decode_contents [] = fmempty
   \<and> fst (load_profile_keys home_config toy_gpg (str_of ''p'') stale_world)
       = fmupd (str_of ''K'') (str_of ''v'') fmempty"
proof -
  let ?w = "stale_world\<lparr>calls := [GpgVersion,
        GpgDecrypt False (profile_keys_path home_config (str_of ''p''))]\<rparr>"
  have fs: "dirs ?w = dirs home_world" "cwd ?w = cwd home_world"
    by (simp_all add: stale_world_def)
  have p: "os_path_exists ?w (profile_keys_plain_path home_config (str_of ''p''))"
    unfolding os_path_exists_def p_plain_loc [OF fs]
    by (simp add: stale_world_def)
  have l: "file_at ?w (profile_keys_plain_path home_config (str_of ''p''))
      = Some (str_of ''K=dg=='' @ [LF])"
    unfolding file_at_def p_plain_loc [OF fs]
    using p_locs_distinct by (simp add: stale_world_def)
  have n: "str_of ''K=dg=='' @ [LF] \<noteq> []" by simp
  have d: "decode_contents [] = fmempty"
    by (simp add: decode_contents_def strip_def lstrip_def rstrip_def decode_line_def)
  have "fst (load_profile_keys home_config toy_gpg (str_of ''p'') stale_world)
       = fmupd (str_of ''K'') (str_of ''v'') fmempty"
    using stale_world_exists p l n
    by (simp add: load_profile_keys_def stale_world_decrypt not_data_def parse_data_def
        universal_newlines_K decode_K_contents)
  then show ?thesis
    using stale_world_exists d by (simp add: stale_world_decrypt)
qed

lemma plain_world_load_full:
  "load_profile_keys home_config toy_gpg (str_of ''p'') plain_world
     = (fmupd (str_of ''K'') (str_of ''v'') fmempty, plain_world)"
  using plain_world_load plain_world_no_gpg
  by (simp add: prod_eq_iff load_profile_keys_snd)

lemma plain_world_encrypt_empty:
  "encrypt_gpg_data home_config toy_gpg [] (profile_keys_path home_config (str_of ''p'')) plain_world
   = (True, stale_world\<lparr>calls := [GpgVersion,
        GpgEncrypt False (profile_keys_path home_config (str_of ''p''))]\<rparr>)"
proof -
  have o: "open_w plain_world (profile_keys_path home_config (str_of ''p''))
      = Some (profiles_loc @ [str_of ''p.keys.gpg''])"
    unfolding open_w_def p_keys_loc [OF plain_world_fs]
    using p_locs_not_dirs by (simp add: is_dir_def plain_world_def)
  have c: "calls plain_world = [GpgVersion]"
    by (simp add: plain_world_def home_world_def)
  show ?thesis
    using o c home_config_gpg p_keys_path_ok
    by (simp add: encrypt_gpg_data_def run_gpg_encrypt_def toy_gpg_def encodable_def
        plain_world_def stale_world_def)
qed

lemma plain_world_delete_K:
  "delete_profile_key home_config toy_gpg (str_of ''p'') (str_of ''K'') plain_world
   = ((Message ''Key deleted successfully'', 200),
      stale_world\<lparr>calls := [GpgVersion,
        GpgEncrypt False (profile_keys_path home_config (str_of ''p''))]\<rparr>)"
proof -
  let ?w = "stale_world\<lparr>calls := [GpgVersion,
        GpgEncrypt False (profile_keys_path home_config (str_of ''p''))]\<rparr>"
  have fs: "dirs ?w = dirs home_world" "cwd ?w = cwd home_world"
    by (simp_all add: stale_world_def)
  have s: "save_profile_keys home_config toy_gpg (str_of ''p'') fmempty plain_world = (True, ?w)"
    by (simp add: save_profile_keys_def encode_empty_contents plain_world_encrypt_empty)
  have "\<not> os_path_exists ?w (profile_path home_config (str_of ''p''))"
    unfolding os_path_exists_def p_profile_loc [OF fs]
    using p_locs_distinct p_locs_not_dirs
    by (simp add: is_dir_def stale_world_def profiles_loc_def)
  then have r: "read_profile home_config (str_of ''p'') ?w = []"
    by (simp add: read_profile_def)
  show ?thesis
    by (simp add: delete_profile_key_def plain_world_load_full fmdrop_single s r)
qed

text \<open>
  C2 does not hold of the code: \<open>load_profile_keys\<close> tests \<open>not data\<close>, which is true
  of the empty string as well as of \<open>None\<close>. In the state \<open>stale_world\<close> the encrypted
  file exists and its decryption succeeds with the empty text, whose decoding is the
  empty mapping; the function reads the plaintext file all the same and returns the
  key \<open>K\<close>. The state is reached by the engine itself: deleting the only key \<open>K\<close> of the
  profile in \<open>plain_world\<close> answers with success, and the next load still returns \<open>K\<close>.
\<close>

theorem empty_decryption_falls_through:
  "os_path_exists stale_world (profile_keys_path home_config (str_of ''p''))
   \<and> fst (decrypt_gpg_data home_config toy_gpg (profile_keys_path home_config (str_of ''p''))
            stale_world) = Some []
   \<and> decode_contents [] = fmempty
   \<and> fst (load_profile_keys home_config toy_gpg (str_of ''p'') stale_world)
       = fmupd (str_of ''K'') (str_of ''v'') fmempty
   \<and> fst (delete_profile_key home_config toy_gpg (str_of ''p'') (str_of ''K'') plain_world)
       = (Message ''Key deleted successfully'', 200)
   \<and> fst (load_profile_keys home_config toy_gpg (str_of ''p'')
        (snd (delete_profile_key home_config toy_gpg (str_of ''p'') (str_of ''K'') plain_world)))
       = fmupd (str_of ''K'') (str_of ''v'') fmempty"
proof -
  let ?w = "stale_world\<lparr>calls := [GpgVersion,
        GpgEncrypt False (profile_keys_path home_config (str_of ''p''))]\<rparr>"
  have "fst (load_profile_keys home_config toy_gpg (str_of ''p'') ?w)
      = fst (load_profile_keys home_config toy_gpg (str_of ''p'') stale_world)"
    by (rule load_profile_keys_cong) simp_all
  then show ?thesis
    using stale_world_load_result by (simp add: plain_world_delete_K)
qed

theorem empty_decryption_falls_through_witness:
  "str_of ''K'' |\<in>| fmdom (fst (load_profile_keys home_config toy_gpg (str_of ''p'') stale_world))
   \<and> str_of ''K'' |\<notin>| fmdom (decode_contents [])"
  using empty_decryption_falls_through by simp

section \<open>Writing and reading a name list\<close>

lemma write_profile_success:
  assumes "write_profile cfg name keys w = (True, w')"
  shows "\<exists>l. open_w w (profile_path cfg name) = Some l
    \<and> w' = w\<lparr>files := fmupd l (concat (map (\<lambda>key. key @ [LF]) (sort (remdups keys)))) (files w)\<rparr>"
proof -
  from assms obtain l where o: "open_w w (profile_path cfg name) = Some l"
    and enc: "list_all encodable (sort (remdups keys))"
    and w': "w' = w\<lparr>files := fmupd l
       (concat (map (\<lambda>key. key @ [LF]) (takeWhile encodable (sort (remdups keys))))) (files w)\<rparr>"
    by (auto simp: write_profile_def Let_def split: option.splits)
  from enc have "takeWhile encodable (sort (remdups keys)) = sort (remdups keys)"
    by (simp add: list_all_iff takeWhile_eq_all_conv)
  with o w' show ?thesis by simp
qed

lemma home_world_write:
  assumes "list_all encodable (sort (remdups keys))"
  shows "write_profile home_config (str_of ''p'') keys home_world
    = (True, home_world\<lparr>files := fmupd (profiles_loc @ [str_of ''p.profile''])
         (concat (map (\<lambda>key. key @ [LF]) (sort (remdups keys)))) fmempty\<rparr>)"
proof -
  have o: "open_w home_world (profile_path home_config (str_of ''p''))
      = Some (profiles_loc @ [str_of ''p.profile''])"
    unfolding open_w_def p_profile_loc [OF refl refl]
    using p_locs_not_dirs by (simp add: is_dir_def)
  have f: "files home_world = fmempty"
    by (simp add: home_world_def)
  from assms have t: "takeWhile encodable (sort (remdups keys)) = sort (remdups keys)"
    by (simp add: list_all_iff takeWhile_eq_all_conv)
  show ?thesis
    unfolding write_profile_def Let_def t o
    using f assms by simp
qed

lemma home_world_read:
  "read_profile home_config (str_of ''p'')
     (home_world\<lparr>files := fmupd (profiles_loc @ [str_of ''p.profile'']) c fmempty\<rparr>)
   = filter (\<lambda>line. line \<noteq> []) (map strip (readlines (universal_newlines c)))"
proof -
  let ?w = "home_world\<lparr>files := fmupd (profiles_loc @ [str_of ''p.profile'']) c fmempty\<rparr>"
  have fs: "dirs ?w = dirs home_world" "cwd ?w = cwd home_world"
    by simp_all
  show ?thesis
    unfolding read_profile_def Let_def os_path_exists_def file_at_def p_profile_loc [OF fs]
    by simp
qed

text \<open>
  C8, as stated for every list of key names, fails: the name \<open>" a"\<close> is written as the
  line \<open>" a\n"\<close>, and \<open>read_profile\<close>, which strips every line, returns \<open>"a"\<close>. The
  empty name is written as an empty line, which the reader drops; a name with a
  carriage return or a line feed inside is read back as two names.
\<close>

theorem name_list_whitespace_counterexample:
  "fst (write_profile home_config (str_of ''p'') [str_of '' a''] home_world)
   \<and> read_profile home_config (str_of ''p'')
        (snd (write_profile home_config (str_of ''p'') [str_of '' a''] home_world))
       = [str_of ''a'']
   \<and> sort (remdups [str_of '' a'']) = [str_of '' a'']
   \<and> [str_of ''a''] \<noteq> [str_of '' a'']
   \<and> fst (write_profile home_config (str_of ''p'') [[]] home_world)
   \<and> read_profile home_config (str_of ''p'')
        (snd (write_profile home_config (str_of ''p'') [[]] home_world)) = []
   \<and> sort (remdups [[]::str]) = [[]]
   \<and> fst (write_profile home_config (str_of ''p'') [[97, CR, 98]] home_world)
   \<and> read_profile home_config (str_of ''p'')
        (snd (write_profile home_config (str_of ''p'') [[97, CR, 98]] home_world))
       = [str_of ''a'', str_of ''b'']
   \<and> sort (remdups [[97, CR, 98]]) = [[97, CR, 98]]
   \<and> fst (write_profile home_config (str_of ''p'') [[97, LF, 98]] home_world)
   \<and> read_profile home_config (str_of ''p'')
        (snd (write_profile home_config (str_of ''p'') [[97, LF, 98]] home_world))
       = [str_of ''a'', str_of ''b'']
   \<and> sort (remdups [[97, LF, 98]]) = [[97, LF, 98]]"
proof -
  have e: "list_all encodable (sort (remdups [str_of '' a'']))"
    "list_all encodable (sort (remdups [[]]))"
    "list_all encodable (sort (remdups [[97, CR, 98]]))"
    "list_all encodable (sort (remdups [[97, LF, 98]]))"
    by (simp_all add: encodable_def is_scalar_def str_of_def)
  have r1: "filter (\<lambda>line. line \<noteq> [])
       (map strip (readlines (universal_newlines (str_of '' a'' @ [LF])))) = [str_of ''a'']"
    by (simp add: readlines_def strip_def lstrip_def rstrip_def isspace_def str_of_def)
  have r2: "filter (\<lambda>line. line \<noteq> [])
       (map strip (readlines (universal_newlines [LF]))) = []"
    by (simp add: readlines_def strip_def lstrip_def rstrip_def isspace_def)
  have r3: "filter (\<lambda>line. line \<noteq> [])
       (map strip (readlines (universal_newlines [97, CR, 98, LF]))) = [str_of ''a'', str_of ''b'']"
    by (simp add: readlines_def strip_def lstrip_def rstrip_def isspace_def str_of_def)
  have r4: "filter (\<lambda>line. line \<noteq> [])
       (map strip (readlines (universal_newlines [97, LF, 98, LF]))) = [str_of ''a'', str_of ''b'']"
    by (simp add: readlines_def strip_def lstrip_def rstrip_def isspace_def str_of_def)
  have n: "[str_of ''a''] \<noteq> [str_of '' a'']"
    by (simp add: str_of_def)
  show ?thesis
    using r1 r2 r3 r4 n
    by (simp add: home_world_write [OF e(1)] home_world_write [OF e(2)]
        home_world_write [OF e(3)] home_world_write [OF e(4)] home_world_read)
qed


text \<open>
  C8, amended: a successful \<open>write_profile\<close> replaces the whole file that the path of
  the name list leads to by one line per distinct name, in sorted order. A subsequent
  \<open>read_profile\<close> returns that sorted, duplicate-free list when every name is non-empty,
  has no whitespace at either end and contains no line feed or carriage return. Writing
  \<open>["b", "a", "a"]\<close> and reading yields \<open>["a", "b"]\<close>.
\<close>

theorem name_list_write_then_read:
  assumes "write_profile cfg name keys w = (True, w')"
  shows "(\<exists>l. open_w w (profile_path cfg name) = Some l
           \<and> files w' = fmupd l (concat (map (\<lambda>key. key @ [LF]) (sort (remdups keys)))) (files w))
    \<and> file_at w' (profile_path cfg name)
        = Some (concat (map (\<lambda>key. key @ [LF]) (sort (remdups keys))))
    \<and> ((\<forall>k \<in> set keys. k \<noteq> [] \<and> strip k = k \<and> LF \<notin> set k \<and> CR \<notin> set k) \<longrightarrow>
        read_profile cfg name w' = sort (remdups keys))"
proof -
  let ?p = "profile_path cfg name"
  let ?c = "concat (map (\<lambda>key. key @ [LF]) (sort (remdups keys)))"
  from write_profile_success [OF assms] obtain l where o: "open_w w ?p = Some l"
    and w': "w' = w\<lparr>files := fmupd l ?c (files w)\<rparr>"
    by blast
  from open_w_resolve [OF o] have r: "resolve w ?p = Some l"
    by simp
  have fs: "dirs w' = dirs w" "cwd w' = cwd w"
    using w' by simp_all
  have r': "resolve w' ?p = Some l"
    using resolve_cong [OF fs] r by simp
  have f: "files w' = fmupd l ?c (files w)"
    using w' by simp
  have ex: "os_path_exists w' ?p"
    unfolding os_path_exists_def r' by (simp add: f)
  have lk: "file_at w' ?p = Some ?c"
    unfolding file_at_def r' by (simp add: f)
  have rd: "read_profile cfg name w' =
      filter (\<lambda>line. line \<noteq> []) (map strip (readlines (universal_newlines ?c)))"
    using ex lk by (simp add: read_profile_def)
  show ?thesis
  proof (intro conjI impI)
    show "\<exists>l. open_w w ?p = Some l \<and> files w' = fmupd l ?c (files w)"
      using o w' by simp
  next
    show "file_at w' ?p = Some ?c" by (rule lk)
  next
    assume "\<forall>k \<in> set keys. k \<noteq> [] \<and> strip k = k \<and> LF \<notin> set k \<and> CR \<notin> set k"
    then have "\<forall>k \<in> set (sort (remdups keys)). k \<noteq> [] \<and> strip k = k \<and> LF \<notin> set k \<and> CR \<notin> set k"
      by simp
    then show "read_profile cfg name w' = sort (remdups keys)"
      unfolding rd by (rule read_written_lines)
  qed
qed

theorem name_list_write_then_read_witness:
  "write_profile home_config (str_of ''p'') [str_of ''b'', str_of ''a'', str_of ''a''] home_world
     = (True, home_world\<lparr>files := fmupd (profiles_loc @ [str_of ''p.profile''])
          (str_of ''a'' @ [LF] @ str_of ''b'' @ [LF]) fmempty\<rparr>)
   \<and> read_profile home_config (str_of ''p'')
        (home_world\<lparr>files := fmupd (profiles_loc @ [str_of ''p.profile''])
          (str_of ''a'' @ [LF] @ str_of ''b'' @ [LF]) fmempty\<rparr>)
       = [str_of ''a'', str_of ''b'']"
proof -
  let ?keys = "[str_of ''b'', str_of ''a'', str_of ''a'']"
  let ?w = "home_world\<lparr>files := fmupd (profiles_loc @ [str_of ''p.profile''])
          (str_of ''a'' @ [LF] @ str_of ''b'' @ [LF]) fmempty\<rparr>"
  have s: "sort (remdups ?keys) = [str_of ''a'', str_of ''b'']"
    by (simp add: str_of_def)
  have e: "list_all encodable (sort (remdups ?keys))"
    unfolding s by (simp add: encodable_def is_scalar_def str_of_def)
  have w: "write_profile home_config (str_of ''p'') ?keys home_world = (True, ?w)"
    using home_world_write [OF e] unfolding s by simp
  have c: "\<forall>k \<in> set ?keys. k \<noteq> [] \<and> strip k = k \<and> LF \<notin> set k \<and> CR \<notin> set k"
    by (simp add: strip_def lstrip_def rstrip_def isspace_def str_of_def)
  have "read_profile home_config (str_of ''p'') ?w = sort (remdups ?keys)"
    using name_list_write_then_read [OF w, THEN conjunct2, THEN conjunct2] c by blast
  then show ?thesis
    using w unfolding s by simp
qed

end
